theory Spec2Isabelle
  imports Complex_Main
begin

section \<open>Python values as the crawler sees them\<close>

text \<open>
  The crawler (\<^verbatim>\<open>src/crawler.py\<close>) works on values decoded from JSON by
  \<^verbatim>\<open>response.json()\<close>: \<^verbatim>\<open>None\<close>, booleans, unbounded integers, floats, strings,
  lists and dicts with string keys. A Python string is a sequence of Unicode code
  points, so it is modelled as a list of code points (the markers the code looks
  for are not ASCII). A dict is an association list in insertion order, looked up
  with \<open>map_of\<close>. Floats are the finite ones of RFC 8259 JSON, carried as reals.
\<close>

type_synonym pystr = "nat list"

datatype json =
    JNull
  | JBool bool
  | JInt int
  | JFloat real
  | JStr pystr
  | JList "json list"
  | JDict "(pystr \<times> json) list"

text \<open>An ASCII literal of the source, as code points.\<close>

definition ascii :: "string \<Rightarrow> pystr" where
  "ascii s = map of_char s"

text \<open>The exceptions the modelled code can raise; every one is an \<^verbatim>\<open>Exception\<close>.\<close>

datatype py_error = AttributeError | TypeError | ValueError | RequestError | UnicodeEncodeError

text \<open>Truth value of a decoded value (\<^verbatim>\<open>if mblog:\<close>).\<close>

fun truthy :: "json \<Rightarrow> bool" where
  "truthy JNull = False"
| "truthy (JBool b) = b"
| "truthy (JInt i) = (i \<noteq> 0)"
| "truthy (JFloat r) = (r \<noteq> 0)"
| "truthy (JStr s) = (s \<noteq> [])"
| "truthy (JList xs) = (xs \<noteq> [])"
| "truthy (JDict kvs) = (kvs \<noteq> [])"

text \<open>
  Python's \<^verbatim>\<open>==\<close> on decoded values: booleans, integers and floats compare by
  numeric value (\<^verbatim>\<open>True == 1\<close>, \<^verbatim>\<open>11.0 == 11\<close>), strings and \<^verbatim>\<open>None\<close> by value,
  lists element by element, dicts as mappings (same number of keys, and every key
  of the left one bound to an equal value in the right one).
\<close>

fun num_val :: "json \<Rightarrow> real option" where
  "num_val (JBool b) = Some (if b then 1 else 0)"
| "num_val (JInt i) = Some (of_int i)"
| "num_val (JFloat r) = Some r"
| "num_val _ = None"

fun py_eq :: "json \<Rightarrow> json \<Rightarrow> bool"
  and py_eq_list :: "json list \<Rightarrow> json list \<Rightarrow> bool"
  and py_eq_items :: "(pystr \<times> json) list \<Rightarrow> (pystr \<times> json) list \<Rightarrow> bool" where
  "py_eq JNull y = (y = JNull)"
| "py_eq (JBool a) y = (num_val y = Some (if a then 1 else 0))"
| "py_eq (JInt i) y = (num_val y = Some (of_int i))"
| "py_eq (JFloat r) y = (num_val y = Some r)"
| "py_eq (JStr s) y = (y = JStr s)"
| "py_eq (JList xs) y = (case y of JList ys \<Rightarrow> py_eq_list xs ys | _ \<Rightarrow> False)"
| "py_eq (JDict a) y =
     (case y of
        JDict b \<Rightarrow> length (remdups (map fst a)) = length (remdups (map fst b)) \<and> py_eq_items a b
      | _ \<Rightarrow> False)"
| "py_eq_list [] ys = (ys = [])"
| "py_eq_list (x # xs) ys = (case ys of [] \<Rightarrow> False | y # ys' \<Rightarrow> py_eq x y \<and> py_eq_list xs ys')"
| "py_eq_items [] b = True"
| "py_eq_items ((k, v) # a) b =
     ((case map_of b k of None \<Rightarrow> False | Some w \<Rightarrow> py_eq v w) \<and> py_eq_items a b)"

text \<open>\<^verbatim>\<open>d.get(key, default)\<close>: only a dict has the method.\<close>

fun py_get :: "json \<Rightarrow> pystr \<Rightarrow> json \<Rightarrow> py_error + json" where
  "py_get (JDict kvs) k d = Inr (case map_of kvs k of Some v \<Rightarrow> v | None \<Rightarrow> d)"
| "py_get _ k d = Inl AttributeError"

text \<open>\<^verbatim>\<open>s in t\<close> for strings: \<open>s\<close> occurs in \<open>t\<close> as a contiguous run.\<close>

fun str_contains :: "pystr \<Rightarrow> pystr \<Rightarrow> bool" where
  "str_contains sub [] = (sub = [])"
| "str_contains sub (c # cs) = (take (length sub) (c # cs) = sub \<or> str_contains sub cs)"

text \<open>
  \<^verbatim>\<open>s in x\<close> for a string \<open>s\<close> and a decoded value \<open>x\<close>: substring test on a
  string, membership on a list, key test on a dict, \<^verbatim>\<open>TypeError\<close> otherwise.
\<close>

fun py_in :: "pystr \<Rightarrow> json \<Rightarrow> py_error + bool" where
  "py_in s (JStr t) = Inr (str_contains s t)"
| "py_in s (JList xs) = Inr (list_ex (\<lambda>x. py_eq x (JStr s)) xs)"
| "py_in s (JDict kvs) = Inr (map_of kvs s \<noteq> None)"
| "py_in s _ = Inl TypeError"

text \<open>Iterating a decoded value (\<^verbatim>\<open>for item in x\<close>).\<close>

fun py_iter :: "json \<Rightarrow> py_error + json list" where
  "py_iter (JList xs) = Inr xs"
| "py_iter (JStr s) = Inr (map (\<lambda>c. JStr [c]) s)"
| "py_iter (JDict kvs) = Inr (map (\<lambda>kv. JStr (fst kv)) kvs)"
| "py_iter _ = Inl TypeError"

text \<open>\<^verbatim>\<open>text.replace('\n', ' ')\<close>: only a string has the method.\<close>

fun py_replace_nl :: "json \<Rightarrow> py_error + pystr" where
  "py_replace_nl (JStr s) = Inr (map (\<lambda>c. if c = 10 then 32 else c) s)"
| "py_replace_nl _ = Inl AttributeError"

text \<open>
  Encoding as strict UTF-8, which \<^verbatim>\<open>print\<close> does on standard output and
  \<^verbatim>\<open>urllib.parse.quote\<close> on its argument: a surrogate code point (U+D800 to U+DFFF)
  raises \<^verbatim>\<open>UnicodeEncodeError\<close>.
\<close>

definition utf8_ok :: "pystr \<Rightarrow> bool" where
  "utf8_ok s = list_all (\<lambda>c. c < 0xD800 \<or> 0xDFFF < c) s"

text \<open>
  \<^verbatim>\<open>print(f"...{x}")\<close> with literal text around one value \<open>x\<close>. What is written for a
  string is the string itself; for \<^verbatim>\<open>None\<close>, a boolean or a number it is ASCII, and for
  a list or a dict it is their \<^verbatim>\<open>repr\<close>, which escapes surrogates.
\<close>

fun py_print :: "json \<Rightarrow> py_error + unit" where
  "py_print (JStr s) = (if utf8_ok s then Inr () else Inl UnicodeEncodeError)"
| "py_print x = Inr ()"

text \<open>Decimal digits of an integer, as \<^verbatim>\<open>str\<close> prints them.\<close>

function str_nat :: "nat \<Rightarrow> pystr" where
  "str_nat n = (if n < 10 then [48 + n] else str_nat (n div 10) @ [48 + n mod 10])"
  by pat_completeness auto
termination
  by (relation "measure (\<lambda>n. n)") auto

declare str_nat.simps [simp del]

definition str_int :: "int \<Rightarrow> pystr" where
  "str_int i = (if i < 0 then 45 # str_nat (nat (- i)) else str_nat (nat i))"

section \<open>What lies outside the program\<close>

text \<open>
  One call of the post-body parser reads the wall clock and calls pandas. Both are
  parameters: \<open>now\<close> is what \<^verbatim>\<open>datetime.now().strftime('%Y-%m-%d %H:%M:%S')\<close>
  returns at that call, \<open>to_datetime\<close> is
  \<^verbatim>\<open>pd.to_datetime(x).strftime('%Y-%m-%d %H:%M:%S')\<close> (\<open>None\<close> when either call
  raises), and \<open>repr\<close> is Python's text for a float, a list or a dict.
\<close>

record parse_env =
  now :: pystr
  to_datetime :: "json \<Rightarrow> json option"
  repr :: "json \<Rightarrow> pystr"

text \<open>\<^verbatim>\<open>str(x)\<close>, also what an f-string writes for \<^verbatim>\<open>{x}\<close>.\<close>

fun py_str :: "parse_env \<Rightarrow> json \<Rightarrow> pystr" where
  "py_str env (JStr s) = s"
| "py_str env JNull = ascii ''None''"
| "py_str env (JBool b) = (if b then ascii ''True'' else ascii ''False'')"
| "py_str env (JInt i) = str_int i"
| "py_str env x = repr env x"

section \<open>The card parser\<close>

text \<open>The record \<^verbatim>\<open>parse_mblog\<close> returns, one field per key of the returned dict.\<close>

record post =
  r_id :: pystr
  r_bid :: json
  r_created_at :: json
  r_text :: pystr
  r_is_retweet :: int
  r_reposts_count :: json
  r_comments_count :: json
  r_attitudes_count :: json
  r_user_name :: json
  r_user_followers :: json
  r_source :: json

text \<open>The two relative-time markers of line 108: "minutes ago" and "hours ago".\<close>

definition minutes_ago :: pystr where
  "minutes_ago = [0x5206, 0x949F, 0x524D]"

definition hours_ago :: pystr where
  "hours_ago = [0x5C0F, 0x65F6, 0x524D]"

text \<open>Lines 108 to 111, the body of the inner \<^verbatim>\<open>try\<close>.\<close>

definition created_at_try :: "parse_env \<Rightarrow> json \<Rightarrow> py_error + json" where
  "created_at_try env created_at =
     (case py_in minutes_ago created_at of
        Inl e \<Rightarrow> Inl e
      | Inr m \<Rightarrow>
          if m then Inr (JStr (now env))
          else (case py_in hours_ago created_at of
                  Inl e \<Rightarrow> Inl e
                | Inr h \<Rightarrow>
                    if h then Inr (JStr (now env))
                    else (case to_datetime env created_at of
                            None \<Rightarrow> Inl ValueError
                          | Some v \<Rightarrow> Inr v)))"

text \<open>Lines 107 to 113: the bare \<^verbatim>\<open>except\<close> turns any failure into \<^verbatim>\<open>str(created_at)\<close>.\<close>

definition normalize_created_at :: "parse_env \<Rightarrow> json \<Rightarrow> json" where
  "normalize_created_at env created_at =
     (case created_at_try env created_at of
        Inl e \<Rightarrow> JStr (py_str env created_at)
      | Inr v \<Rightarrow> v)"

text \<open>\<^verbatim>\<open>d.get(key, default)\<close> on the entries of a value known to be a dict.\<close>

definition dget :: "(pystr \<times> json) list \<Rightarrow> pystr \<Rightarrow> json \<Rightarrow> json" where
  "dget kvs k d = (case map_of kvs k of Some v \<Rightarrow> v | None \<Rightarrow> d)"

text \<open>Lines 93 to 103: the text and the repost flag.\<close>

definition retweet_part :: "parse_env \<Rightarrow> (pystr \<times> json) list \<Rightarrow> py_error + (bool \<times> json)" where
  "retweet_part env m =
     (let text = dget m (ascii ''text'') (JStr [])
      in case map_of m (ascii ''retweeted_status'') of
           None \<Rightarrow> Inr (False, text)
         | Some retweet_status \<Rightarrow>
             (case py_get retweet_status (ascii ''text'') (JStr []) of
                Inl e \<Rightarrow> Inl e
              | Inr retweet_text \<Rightarrow>
                  Inr (True, JStr (py_str env text @ ascii '' // '' @ py_str env retweet_text))))"

text \<open>Lines 92 to 127, the body of the \<^verbatim>\<open>try\<close> of \<^verbatim>\<open>parse_mblog\<close>.\<close>

fun parse_mblog_try :: "parse_env \<Rightarrow> json \<Rightarrow> py_error + post" where
  "parse_mblog_try env (JDict m) =
     (case retweet_part env m of
        Inl e \<Rightarrow> Inl e
      | Inr (is_retweet, text) \<Rightarrow>
          (let created_at = normalize_created_at env (dget m (ascii ''created_at'') (JStr []))
           in case py_replace_nl text of
                Inl e \<Rightarrow> Inl e
              | Inr text' \<Rightarrow>
                  (case py_get (dget m (ascii ''user'') (JDict [])) (ascii ''screen_name'') (JStr []) of
                     Inl e \<Rightarrow> Inl e
                   | Inr user_name \<Rightarrow>
                       (case py_get (dget m (ascii ''user'') (JDict [])) (ascii ''followers_count'') (JInt 0) of
                          Inl e \<Rightarrow> Inl e
                        | Inr user_followers \<Rightarrow>
                            Inr \<lparr> r_id = py_str env (dget m (ascii ''id'') (JStr [])),
                                  r_bid = dget m (ascii ''bid'') (JStr []),
                                  r_created_at = created_at,
                                  r_text = text',
                                  r_is_retweet = (if is_retweet then 1 else 0),
                                  r_reposts_count = dget m (ascii ''reposts_count'') (JInt 0),
                                  r_comments_count = dget m (ascii ''comments_count'') (JInt 0),
                                  r_attitudes_count = dget m (ascii ''attitudes_count'') (JInt 0),
                                  r_user_name = user_name,
                                  r_user_followers = user_followers,
                                  r_source = dget m (ascii ''source'') (JStr []) \<rparr>))))"
| "parse_mblog_try env _ = Inl AttributeError"

text \<open>\<^verbatim>\<open>parse_mblog\<close>: \<^verbatim>\<open>except Exception\<close> returns \<^verbatim>\<open>None\<close>.\<close>

definition parse_mblog :: "parse_env \<Rightarrow> json \<Rightarrow> post option" where
  "parse_mblog env mblog = (case parse_mblog_try env mblog of Inl e \<Rightarrow> None | Inr r \<Rightarrow> Some r)"

text \<open>Lines 53 to 57: the scan of \<^verbatim>\<open>card_group\<close>, returning at the first hit.\<close>

fun scan_group :: "parse_env \<Rightarrow> json list \<Rightarrow> py_error + post option" where
  "scan_group env [] = Inr None"
| "scan_group env (item # rest) =
     (case py_get item (ascii ''card_type'') JNull of
        Inl e \<Rightarrow> Inl e
      | Inr ct \<Rightarrow>
          if py_eq ct (JInt 9)
          then (case py_get item (ascii ''mblog'') (JDict []) of
                  Inl e \<Rightarrow> Inl e
                | Inr mblog \<Rightarrow>
                    if truthy mblog then Inr (parse_mblog env mblog)
                    else scan_group env rest)
          else scan_group env rest)"

text \<open>Lines 50 to 63, the body of the \<^verbatim>\<open>try\<close> of \<^verbatim>\<open>parse_weibo\<close>.\<close>

definition parse_weibo_try :: "parse_env \<Rightarrow> json \<Rightarrow> py_error + post option" where
  "parse_weibo_try env a_card =
     (case py_get a_card (ascii ''card_type'') JNull of
        Inl e \<Rightarrow> Inl e
      | Inr ct \<Rightarrow>
          if py_eq ct (JInt 11)
          then (case py_get a_card (ascii ''card_group'') (JList []) of
                  Inl e \<Rightarrow> Inl e
                | Inr card_group \<Rightarrow>
                    (case py_iter card_group of
                       Inl e \<Rightarrow> Inl e
                     | Inr items \<Rightarrow> scan_group env items))
          else if py_eq ct (JInt 9)
          then (case py_get a_card (ascii ''mblog'') (JDict []) of
                  Inl e \<Rightarrow> Inl e
                | Inr mblog \<Rightarrow>
                    if truthy mblog then Inr (parse_mblog env mblog) else Inr None)
          else Inr None)"

text \<open>\<^verbatim>\<open>parse_weibo\<close>: \<^verbatim>\<open>except Exception\<close> returns \<^verbatim>\<open>None\<close>.\<close>

definition parse_weibo :: "parse_env \<Rightarrow> json \<Rightarrow> post option" where
  "parse_weibo env a_card = (case parse_weibo_try env a_card of Inl e \<Rightarrow> None | Inr r \<Rightarrow> r)"

section \<open>The fetch loop\<close>

text \<open>
  The network is a parameter: \<open>fetch w page\<close> is the outcome of
  \<^verbatim>\<open>requests.get(...)\<close> followed by \<^verbatim>\<open>response.json()\<close> for that page number
  (\<open>Raised\<close> when either call raises, else the decoded body), and
  \<open>env_at w page i\<close> is the clock and pandas at the parse of card \<open>i\<close> of that
  page. A run asks for each page number at most once.
\<close>

datatype response = Raised | Body json

record world =
  fetch :: "int \<Rightarrow> response"
  env_at :: "int \<Rightarrow> nat \<Rightarrow> parse_env"

text \<open>
  The variables of \<^verbatim>\<open>get_weibo_data\<close> that live across iterations, and the page
  numbers requested so far (the trace of line 163).
\<close>

record loop_state =
  all_data :: "post list"
  consecutive_empty :: nat
  requested :: "int list"

text \<open>\<^verbatim>\<open>len(x)\<close>.\<close>

fun py_len :: "json \<Rightarrow> py_error + nat" where
  "py_len (JList xs) = Inr (length xs)"
| "py_len (JStr s) = Inr (length s)"
| "py_len (JDict kvs) = Inr (length (remdups (map fst kvs)))"
| "py_len _ = Inl TypeError"

text \<open>
  Line 170: \<^verbatim>\<open>[card.get('card_type') for card in cards]\<close>. Line 171 prints the list,
  that is its \<^verbatim>\<open>repr\<close>, and does not raise.
\<close>

fun card_types :: "json list \<Rightarrow> py_error + json list" where
  "card_types [] = Inr []"
| "card_types (c # cs) =
     (case py_get c (ascii ''card_type'') JNull of
        Inl e \<Rightarrow> Inl e
      | Inr t \<Rightarrow> (case card_types cs of Inl e \<Rightarrow> Inl e | Inr ts \<Rightarrow> Inr (t # ts)))"

text \<open>Line 175: \<^verbatim>\<open>print(f"... type={card.get('card_type')}")\<close>.\<close>

definition show_card :: "json \<Rightarrow> py_error + unit" where
  "show_card c =
     (case py_get c (ascii ''card_type'') JNull of
        Inl e \<Rightarrow> Inl e
      | Inr t \<Rightarrow> py_print t)"

text \<open>
  Lines 174 to 184: the loop over the cards of one page, on \<^verbatim>\<open>all_data\<close> and
  \<^verbatim>\<open>new_posts\<close>; \<open>i\<close> is the position of the next card. A parsed record is a
  dict of eleven keys, so \<^verbatim>\<open>if weibo_data:\<close> holds exactly when it is not
  \<^verbatim>\<open>None\<close>. The loop runs inside the \<^verbatim>\<open>try\<close> of line 155: when a statement raises,
  the loop is left with the exception and with \<^verbatim>\<open>all_data\<close> as it is at that moment
  (\<open>Inl\<close>); line 182 prints after the append of line 180.
\<close>

fun cards_loop ::
  "(nat \<Rightarrow> parse_env) \<Rightarrow> nat \<Rightarrow> json list \<Rightarrow> post list \<times> nat \<Rightarrow> py_error \<times> post list + post list \<times> nat" where
  "cards_loop envs i [] acc = Inr acc"
| "cards_loop envs i (c # cs) (posts, new_posts) =
     (case show_card c of
        Inl e \<Rightarrow> Inl (e, posts)
      | Inr u \<Rightarrow>
          (case parse_weibo (envs i) c of
             None \<Rightarrow> cards_loop envs (Suc i) cs (posts, new_posts)
           | Some weibo_data \<Rightarrow>
               if \<not> list_ex (\<lambda>p. py_eq (r_bid p) (r_bid weibo_data)) posts
               then (case py_print (r_bid weibo_data) of
                       Inl e \<Rightarrow> Inl (e, posts @ [weibo_data])
                     | Inr u' \<Rightarrow> cards_loop envs (Suc i) cs (posts @ [weibo_data], new_posts + 1))
               else (case py_print (r_bid weibo_data) of
                       Inl e \<Rightarrow> Inl (e, posts)
                     | Inr u' \<Rightarrow> cards_loop envs (Suc i) cs (posts, new_posts))))"

text \<open>
  What one page comes to, lines 156 to 184 and 197 to 203: an exception caught by
  the \<^verbatim>\<open>except\<close> of line 201, with \<^verbatim>\<open>all_data\<close> as the exception left it; the
  \<^verbatim>\<open>else\<close> of line 197; or the cards processed to the last one, with the new
  \<^verbatim>\<open>all_data\<close> and \<^verbatim>\<open>new_posts\<close>.
\<close>

datatype page_result = Transient py_error "post list" | ProviderFailure | Fetched "post list" nat

text \<open>Lines 167 to 184, for the value of \<^verbatim>\<open>json_data['data']\<close>.\<close>

definition page_cards :: "(nat \<Rightarrow> parse_env) \<Rightarrow> json \<Rightarrow> post list \<Rightarrow> page_result" where
  "page_cards envs data posts =
     (case py_get data (ascii ''cards'') (JList []) of
        Inl e \<Rightarrow> Transient e posts
      | Inr cards \<Rightarrow>
          (case py_len cards of
             Inl e \<Rightarrow> Transient e posts
           | Inr n \<Rightarrow>
               (case py_iter cards of
                  Inl e \<Rightarrow> Transient e posts
                | Inr items \<Rightarrow>
                    (case card_types items of
                       Inl e \<Rightarrow> Transient e posts
                     | Inr ts \<Rightarrow>
                         (case cards_loop envs 0 items (posts, 0) of
                            Inl (e, posts') \<Rightarrow> Transient e posts'
                          | Inr (posts', new_posts) \<Rightarrow> Fetched posts' new_posts)))))"

text \<open>
  Lines 166 to 199, for the decoded body. Line 198 prints the body, a dict, that is
  its \<^verbatim>\<open>repr\<close>, and does not raise.
\<close>

fun page_body :: "(nat \<Rightarrow> parse_env) \<Rightarrow> json \<Rightarrow> post list \<Rightarrow> page_result" where
  "page_body envs (JDict kvs) posts =
     (if py_eq (dget kvs (ascii ''ok'') JNull) (JInt 1)
      then (case map_of kvs (ascii ''data'') of
              None \<Rightarrow> ProviderFailure
            | Some data \<Rightarrow> page_cards envs data posts)
      else ProviderFailure)"
| "page_body envs _ posts = Transient AttributeError posts"

definition fetch_page :: "world \<Rightarrow> int \<Rightarrow> post list \<Rightarrow> page_result" where
  "fetch_page w page posts =
     (case fetch w page of
        Raised \<Rightarrow> Transient RequestError posts
      | Body json_data \<Rightarrow> page_body (env_at w page) json_data posts)"

text \<open>
  One iteration of the loop of line 154: \<open>Next\<close> goes on to the next page number
  (the end of the body, or \<^verbatim>\<open>continue\<close>), \<open>Stop\<close> is \<^verbatim>\<open>break\<close>. The handler of
  line 201 prints the message of the exception, which holds type names, positions
  and escaped characters, and goes on.
\<close>

datatype ctl = Next | Stop

definition page_iter :: "world \<Rightarrow> int \<Rightarrow> loop_state \<Rightarrow> ctl \<times> loop_state" where
  "page_iter w page st =
     (let st1 = st\<lparr>requested := requested st @ [page]\<rparr>
      in case fetch_page w page (all_data st) of
           Transient e posts' \<Rightarrow> (Next, st1\<lparr>all_data := posts'\<rparr>)
         | ProviderFailure \<Rightarrow> (Stop, st1)
         | Fetched posts' new_posts \<Rightarrow>
             if new_posts = 0
             then (if consecutive_empty st + 1 \<ge> 3
                   then (Stop, st1\<lparr>all_data := posts', consecutive_empty := consecutive_empty st + 1\<rparr>)
                   else (Next, st1\<lparr>all_data := posts', consecutive_empty := consecutive_empty st + 1\<rparr>))
             else (Next, st1\<lparr>all_data := posts', consecutive_empty := 0\<rparr>))"

fun pages_loop :: "world \<Rightarrow> int list \<Rightarrow> loop_state \<Rightarrow> loop_state" where
  "pages_loop w [] st = st"
| "pages_loop w (page # pages) st =
     (case page_iter w page st of
        (Stop, st') \<Rightarrow> st'
      | (Next, st') \<Rightarrow> pages_loop w pages st')"

text \<open>
  The loop of lines 153 to 203 over \<^verbatim>\<open>range(1, page_num + 1)\<close>: \<open>run\<close> is the state
  at line 205.
\<close>

definition run :: "world \<Rightarrow> int \<Rightarrow> loop_state" where
  "run w page_num =
     pages_loop w [1..page_num] \<lparr>all_data = [], consecutive_empty = 0, requested = []\<rparr>"

text \<open>
  \<^verbatim>\<open>get_weibo_data\<close>. Line 147 quotes the keyword outside any \<^verbatim>\<open>try\<close>, so its
  \<^verbatim>\<open>UnicodeEncodeError\<close> leaves the function; the quoted keyword goes into the
  \<^verbatim>\<open>containerid\<close> of every request, and \<open>w\<close> is the network's answers to the
  requests of this run. The returned table lists \<^verbatim>\<open>all_data\<close> row by row.
\<close>

definition get_weibo_data :: "world \<Rightarrow> pystr \<Rightarrow> int \<Rightarrow> py_error + post list" where
  "get_weibo_data w keyword page_num =
     (if utf8_ok keyword then Inr (all_data (run w page_num)) else Inl UnicodeEncodeError)"

section \<open>Predicates on values and records\<close>

text \<open>Objects and strings among the decoded values.\<close>

fun is_dict :: "json \<Rightarrow> bool" where
  "is_dict (JDict kv) = True"
| "is_dict _ = False"

fun is_str :: "json \<Rightarrow> bool" where
  "is_str (JStr s) = True"
| "is_str _ = False"

text \<open>A non-negative integer, what the data model asks of the four counters.\<close>

fun is_count :: "json \<Rightarrow> bool" where
  "is_count (JInt i) = (0 \<le> i)"
| "is_count _ = False"

text \<open>When \<^verbatim>\<open>parse_mblog\<close> returns a record: the text and the user decide, nothing else.\<close>

definition text_ok :: "(pystr \<times> json) list \<Rightarrow> bool" where
  "text_ok m =
     (case map_of m (ascii ''retweeted_status'') of
        None \<Rightarrow> is_str (dget m (ascii ''text'') (JStr []))
      | Some rs \<Rightarrow> is_dict rs)"

text \<open>
  A sub-card the scan of \<^verbatim>\<open>card_group\<close> stops at, and a direct card that is parsed:
  an object whose \<^verbatim>\<open>card_type\<close> equals 9 and whose \<^verbatim>\<open>mblog\<close> is not empty.
\<close>

fun is_post_card :: "json \<Rightarrow> bool" where
  "is_post_card (JDict kv) =
     (py_eq (dget kv (ascii ''card_type'') JNull) (JInt 9) \<and>
      truthy (dget kv (ascii ''mblog'') (JDict [])))"
| "is_post_card _ = False"

text \<open>No two records of a list have equal bids, the earlier one on the left of \<^verbatim>\<open>==\<close>.\<close>

fun unique_bids :: "post list \<Rightarrow> bool" where
  "unique_bids [] = True"
| "unique_bids (p # ps) = (list_all (\<lambda>q. \<not> py_eq (r_bid p) (r_bid q)) ps \<and> unique_bids ps)"

text \<open>\<^verbatim>\<open>all_data\<close> when the loop over the cards is left, by its end or by an exception.\<close>

definition loop_posts :: "py_error \<times> post list + post list \<times> nat \<Rightarrow> post list" where
  "loop_posts r = (case r of Inl (e, posts) \<Rightarrow> posts | Inr (posts, n) \<Rightarrow> posts)"

section \<open>Values used in the examples\<close>

text \<open>A clock and a pandas that parses nothing, for evaluating the parser on examples.\<close>

definition demo_env :: parse_env where
  "demo_env = \<lparr>now = ascii ''2024-05-01 12:00:00'', to_datetime = (\<lambda>x. None), repr = (\<lambda>x. [])\<rparr>"

text \<open>Two relative-time phrases the code does not look for: "just now" and "3 days ago".\<close>

definition just_now :: pystr where
  "just_now = [0x521A, 0x521A]"

definition three_days_ago :: pystr where
  "three_days_ago = [51, 0x5929, 0x524D]"

text \<open>Cards for the examples: an mblog with a bid, a direct card, a composite card.\<close>

definition demo_mblog :: "string \<Rightarrow> json" where
  "demo_mblog b = JDict [(ascii ''bid'', JStr (ascii b)), (ascii ''text'', JStr (ascii ''hello''))]"

definition direct_card :: "json \<Rightarrow> (pystr \<times> json) list" where
  "direct_card mblog = [(ascii ''card_type'', JInt 9), (ascii ''mblog'', mblog)]"

definition composite_card :: "json list \<Rightarrow> (pystr \<times> json) list" where
  "composite_card items = [(ascii ''card_type'', JInt 11), (ascii ''card_group'', JList items)]"

text \<open>
  Worlds for the examples: a body that is ok and carries cards, a post card with a
  given bid and the record it parses to, and a world with a given network.
\<close>

definition ok_body :: "json list \<Rightarrow> json" where
  "ok_body cards = JDict [(ascii ''ok'', JInt 1), (ascii ''data'', JDict [(ascii ''cards'', JList cards)])]"

definition post_card :: "string \<Rightarrow> json" where
  "post_card b = JDict (direct_card (demo_mblog b))"

definition demo_post :: "string \<Rightarrow> post" where
  "demo_post b =
     \<lparr> r_id = [], r_bid = JStr (ascii b), r_created_at = JStr [], r_text = ascii ''hello'',
       r_is_retweet = 0, r_reposts_count = JInt 0, r_comments_count = JInt 0,
       r_attitudes_count = JInt 0, r_user_name = JStr [], r_user_followers = JInt 0,
       r_source = JStr [] \<rparr>"

definition world_of :: "(int \<Rightarrow> response) \<Rightarrow> world" where
  "world_of f = \<lparr>fetch = f, env_at = (\<lambda>page i. demo_env)\<rparr>"

text \<open>
  Page 1 shows b1, b2 and b1 again; page 2 shows b2 inside a composite card, then b3;
  every later page shows b3.
\<close>

definition overlap_fetch :: "int \<Rightarrow> response" where
  "overlap_fetch page =
     (if page = 1 then Body (ok_body [post_card ''b1'', post_card ''b2'', post_card ''b1''])
      else if page = 2 then Body (ok_body [JDict (composite_card [post_card ''b2'']), post_card ''b3''])
      else Body (ok_body [post_card ''b3'']))"

text \<open>Page 1 shows b1; every later page answers with \<^verbatim>\<open>ok\<close> 0.\<close>

definition refused_fetch :: "int \<Rightarrow> response" where
  "refused_fetch page =
     (if page = 1 then Body (ok_body [post_card ''b1''])
      else Body (JDict [(ascii ''ok'', JInt 0), (ascii ''msg'', JStr (ascii ''busy''))]))"

text \<open>
  Page 1 fails on the network, page 2 answers with a JSON list, page 3 shows b1, and
  every later page fails on the network.
\<close>

definition flaky_fetch :: "int \<Rightarrow> response" where
  "flaky_fetch page =
     (if page = 2 then Body (JList [])
      else if page = 3 then Body (ok_body [post_card ''b1''])
      else Raised)"

text \<open>Every page fails on the network.\<close>

definition dead_fetch :: "int \<Rightarrow> response" where
  "dead_fetch page = Raised"

text \<open>
  An mblog whose bid is a lone surrogate (U+D800), its card and its record; a card that
  is a number; a card whose \<^verbatim>\<open>card_type\<close> is a lone surrogate; and the keyword of
  \<^verbatim>\<open>main\<close>.
\<close>

definition surrogate_mblog :: json where
  "surrogate_mblog = JDict [(ascii ''bid'', JStr [0xD800]), (ascii ''text'', JStr (ascii ''hello''))]"

definition surrogate_card :: json where
  "surrogate_card = JDict (direct_card surrogate_mblog)"

definition surrogate_post :: post where
  "surrogate_post =
     \<lparr> r_id = [], r_bid = JStr [0xD800], r_created_at = JStr [], r_text = ascii ''hello'',
       r_is_retweet = 0, r_reposts_count = JInt 0, r_comments_count = JInt 0,
       r_attitudes_count = JInt 0, r_user_name = JStr [], r_user_followers = JInt 0,
       r_source = JStr [] \<rparr>"

definition odd_type_card :: json where
  "odd_type_card = JDict [(ascii ''card_type'', JStr [0xD800])]"

definition demo_keyword :: pystr where
  "demo_keyword = [0x5C0F, 0x8C22, 0x4E00, 0x5BA1]"

text \<open>Page 1 shows b1, page 4 shows the surrogate bid, every other page shows b1.\<close>

definition surrogate_fetch :: "int \<Rightarrow> response" where
  "surrogate_fetch page =
     (if page = 4 then Body (ok_body [surrogate_card]) else Body (ok_body [post_card ''b1'']))"

text \<open>Page 1 shows the surrogate bid; every later page shows it again, and then b2.\<close>

definition repeat_fetch :: "int \<Rightarrow> response" where
  "repeat_fetch page =
     (if page = 1 then Body (ok_body [surrogate_card])
      else Body (ok_body [surrogate_card, post_card ''b2'']))"


section \<open>The post-body parser\<close>

lemma py_replace_nl_Inr: "py_replace_nl t = Inr s \<Longrightarrow> \<exists>u. t = JStr u \<and> s = map (\<lambda>c. if c = 10 then 32 else c) u"
  by (cases t) auto

lemma py_get_Inr: "py_get x k d = Inr v \<Longrightarrow> \<exists>kvs. x = JDict kvs \<and> v = dget kvs k d"
  by (cases x) (auto simp: dget_def)

lemma parse_mblog_try_InrD:
  assumes "parse_mblog_try env (JDict m) = Inr r"
  shows "\<exists>is_rt text u.
           retweet_part env m = Inr (is_rt, JStr text) \<and>
           dget m (ascii ''user'') (JDict []) = JDict u \<and>
           r = \<lparr> r_id = py_str env (dget m (ascii ''id'') (JStr [])),
                 r_bid = dget m (ascii ''bid'') (JStr []),
                 r_created_at = normalize_created_at env (dget m (ascii ''created_at'') (JStr [])),
                 r_text = map (\<lambda>c. if c = 10 then 32 else c) text,
                 r_is_retweet = (if is_rt then 1 else 0),
                 r_reposts_count = dget m (ascii ''reposts_count'') (JInt 0),
                 r_comments_count = dget m (ascii ''comments_count'') (JInt 0),
                 r_attitudes_count = dget m (ascii ''attitudes_count'') (JInt 0),
                 r_user_name = dget u (ascii ''screen_name'') (JStr []),
                 r_user_followers = dget u (ascii ''followers_count'') (JInt 0),
                 r_source = dget m (ascii ''source'') (JStr []) \<rparr>"
proof -
  obtain is_rt t where rp: "retweet_part env m = Inr (is_rt, t)"
    using assms by (cases "retweet_part env m") auto
  obtain tx where t: "py_replace_nl t = Inr tx"
    using assms rp by (cases "py_replace_nl t") (auto simp: Let_def)
  obtain un where un: "py_get (dget m (ascii ''user'') (JDict [])) (ascii ''screen_name'') (JStr []) = Inr un"
    using assms rp t
    by (cases "py_get (dget m (ascii ''user'') (JDict [])) (ascii ''screen_name'') (JStr [])") (auto simp: Let_def)
  obtain uf where uf: "py_get (dget m (ascii ''user'') (JDict [])) (ascii ''followers_count'') (JInt 0) = Inr uf"
    using assms rp t un
    by (cases "py_get (dget m (ascii ''user'') (JDict [])) (ascii ''followers_count'') (JInt 0)") (auto simp: Let_def)
  from py_replace_nl_Inr [OF t] obtain s where s: "t = JStr s" "tx = map (\<lambda>c. if c = 10 then 32 else c) s"
    by blast
  from py_get_Inr [OF un] obtain u where u: "dget m (ascii ''user'') (JDict []) = JDict u" "un = dget u (ascii ''screen_name'') (JStr [])"
    by blast
  from py_get_Inr [OF uf] u have uf': "uf = dget u (ascii ''followers_count'') (JInt 0)"
    by auto
  have "r = \<lparr> r_id = py_str env (dget m (ascii ''id'') (JStr [])),
                 r_bid = dget m (ascii ''bid'') (JStr []),
                 r_created_at = normalize_created_at env (dget m (ascii ''created_at'') (JStr [])),
                 r_text = tx,
                 r_is_retweet = (if is_rt then 1 else 0),
                 r_reposts_count = dget m (ascii ''reposts_count'') (JInt 0),
                 r_comments_count = dget m (ascii ''comments_count'') (JInt 0),
                 r_attitudes_count = dget m (ascii ''attitudes_count'') (JInt 0),
                 r_user_name = un,
                 r_user_followers = uf,
                 r_source = dget m (ascii ''source'') (JStr []) \<rparr>"
    using assms rp t un uf by (simp add: Let_def)
  with rp s u uf' show ?thesis by blast
qed


lemma parse_mblog_SomeD:
  assumes "parse_mblog env (JDict m) = Some r"
  shows "\<exists>is_rt text u.
           retweet_part env m = Inr (is_rt, JStr text) \<and>
           dget m (ascii ''user'') (JDict []) = JDict u \<and>
           r = \<lparr> r_id = py_str env (dget m (ascii ''id'') (JStr [])),
                 r_bid = dget m (ascii ''bid'') (JStr []),
                 r_created_at = normalize_created_at env (dget m (ascii ''created_at'') (JStr [])),
                 r_text = map (\<lambda>c. if c = 10 then 32 else c) text,
                 r_is_retweet = (if is_rt then 1 else 0),
                 r_reposts_count = dget m (ascii ''reposts_count'') (JInt 0),
                 r_comments_count = dget m (ascii ''comments_count'') (JInt 0),
                 r_attitudes_count = dget m (ascii ''attitudes_count'') (JInt 0),
                 r_user_name = dget u (ascii ''screen_name'') (JStr []),
                 r_user_followers = dget u (ascii ''followers_count'') (JInt 0),
                 r_source = dget m (ascii ''source'') (JStr []) \<rparr>"
proof -
  from assms have "parse_mblog_try env (JDict m) = Inr r"
    by (cases "parse_mblog_try env (JDict m)") (simp_all add: parse_mblog_def)
  then show ?thesis by (rule parse_mblog_try_InrD)
qed

lemma parse_mblog_SomeI:
  assumes "retweet_part env m = Inr (is_rt, JStr tx)"
    and "dget m (ascii ''user'') (JDict []) = JDict u"
  shows "parse_mblog env (JDict m) \<noteq> None"
  using assms by (simp add: parse_mblog_def Let_def)

lemma retweet_part_dict:
  assumes "map_of m (ascii ''retweeted_status'') = Some (JDict rs)"
  shows "retweet_part env m =
           Inr (True, JStr (py_str env (dget m (ascii ''text'') (JStr [])) @ ascii '' // '' @
                            py_str env (dget rs (ascii ''text'') (JStr []))))"
  using assms by (simp add: retweet_part_def Let_def dget_def)

lemma retweet_part_none:
  assumes "map_of m (ascii ''retweeted_status'') = None"
  shows "retweet_part env m = Inr (False, dget m (ascii ''text'') (JStr []))"
  using assms by (simp add: retweet_part_def Let_def)

text \<open>
  C5, as the code has it. For every mblog whose \<^verbatim>\<open>retweeted_status\<close> is an object, \<^verbatim>\<open>parse_mblog\<close>
  returns a record exactly when \<^verbatim>\<open>user\<close> is absent or an object, and that record has
  \<^verbatim>\<open>is_retweet\<close> 1 and as text the reposting comment and the original text joined by
  \<^verbatim>\<open>" // "\<close>, with every newline replaced by a space.
\<close>

theorem parse_mblog_retweet:
  assumes "map_of m (ascii ''retweeted_status'') = Some (JDict rs)"
  shows "((parse_mblog env (JDict m) \<noteq> None) = (\<exists>u. dget m (ascii ''user'') (JDict []) = JDict u)) \<and>
         (\<forall>r. parse_mblog env (JDict m) = Some r \<longrightarrow>
              r_is_retweet r = 1 \<and>
              r_text r = map (\<lambda>c. if c = 10 then 32 else c)
                           (py_str env (dget m (ascii ''text'') (JStr [])) @ ascii '' // '' @
                            py_str env (dget rs (ascii ''text'') (JStr []))))"
proof (intro conjI allI impI)
  show "(parse_mblog env (JDict m) \<noteq> None) = (\<exists>u. dget m (ascii ''user'') (JDict []) = JDict u)"
  proof
    assume "parse_mblog env (JDict m) \<noteq> None"
    then obtain r where "parse_mblog env (JDict m) = Some r" by blast
    from parse_mblog_SomeD [OF this] show "\<exists>u. dget m (ascii ''user'') (JDict []) = JDict u"
      by blast
  next
    assume "\<exists>u. dget m (ascii ''user'') (JDict []) = JDict u"
    then obtain u where "dget m (ascii ''user'') (JDict []) = JDict u" by blast
    with retweet_part_dict [OF assms, of env] show "parse_mblog env (JDict m) \<noteq> None"
      by (rule parse_mblog_SomeI)
  qed
next
  fix r assume r: "parse_mblog env (JDict m) = Some r"
  from parse_mblog_SomeD [OF r] obtain is_rt tx where
    rp: "retweet_part env m = Inr (is_rt, JStr tx)" and
    tx: "r_text r = map (\<lambda>c. if c = 10 then 32 else c) tx" and
    fl: "r_is_retweet r = (if is_rt then 1 else 0)"
    by force
  from rp retweet_part_dict [OF assms, of env] have
    "is_rt" "tx = py_str env (dget m (ascii ''text'') (JStr [])) @ ascii '' // '' @
                  py_str env (dget rs (ascii ''text'') (JStr []))"
    by simp_all
  with tx fl show "r_is_retweet r = 1" and
    "r_text r = map (\<lambda>c. if c = 10 then 32 else c)
                           (py_str env (dget m (ascii ''text'') (JStr [])) @ ascii '' // '' @
                            py_str env (dget rs (ascii ''text'') (JStr [])))"
    by simp_all
qed

text \<open>The example of C5: text \<^verbatim>\<open>"A"\<close>, original text \<^verbatim>\<open>"B"\<close>, record text \<^verbatim>\<open>"A // B"\<close>.\<close>

theorem parse_mblog_retweet_witness:
  "map_of [(ascii ''text'', JStr (ascii ''A'')),
           (ascii ''retweeted_status'', JDict [(ascii ''text'', JStr (ascii ''B''))])]
      (ascii ''retweeted_status'') = Some (JDict [(ascii ''text'', JStr (ascii ''B''))]) \<and>
   map_option r_text (parse_mblog demo_env
      (JDict [(ascii ''text'', JStr (ascii ''A'')),
              (ascii ''retweeted_status'', JDict [(ascii ''text'', JStr (ascii ''B''))])]))
     = Some (ascii ''A // B'') \<and>
   map_option r_is_retweet (parse_mblog demo_env
      (JDict [(ascii ''text'', JStr (ascii ''A'')),
              (ascii ''retweeted_status'', JDict [(ascii ''text'', JStr (ascii ''B''))])]))
     = Some 1"
proof -
  let ?rs = "[(ascii ''text'', JStr (ascii ''B''))]"
  let ?m = "[(ascii ''text'', JStr (ascii ''A'')), (ascii ''retweeted_status'', JDict ?rs)]"
  have h: "map_of ?m (ascii ''retweeted_status'') = Some (JDict ?rs)"
    by (simp add: ascii_def)
  note th = parse_mblog_retweet [OF h, of demo_env]
  have "dget ?m (ascii ''user'') (JDict []) = JDict []"
    by (simp add: dget_def ascii_def)
  with th obtain r where r: "parse_mblog demo_env (JDict ?m) = Some r"
    by blast
  with th have "r_is_retweet r = 1" and
    "r_text r = map (\<lambda>c. if c = 10 then 32 else c)
                           (py_str demo_env (dget ?m (ascii ''text'') (JStr [])) @ ascii '' // '' @
                            py_str demo_env (dget ?rs (ascii ''text'') (JStr [])))"
    by blast+
  then have "r_is_retweet r = 1" and "r_text r = ascii ''A // B''"
    by (simp_all add: dget_def ascii_def)
  with h r show ?thesis by simp
qed

text \<open>
  C5 as stated fails where the comment holds a newline: the record's text is not the
  comment and the original joined by the separator, the newline has become a space.
\<close>

theorem parse_mblog_retweet_newline:
  "map_option r_text (parse_mblog demo_env
      (JDict [(ascii ''text'', JStr [10]),
              (ascii ''retweeted_status'', JDict [(ascii ''text'', JStr (ascii ''B''))])]))
     = Some (ascii ''  // B'') \<and>
   ascii ''  // B'' \<noteq> [10] @ ascii '' // '' @ ascii ''B''"
  by (simp add: parse_mblog_def retweet_part_def dget_def ascii_def Let_def)


lemma is_count_dget:
  "(\<forall>v. map_of m k = Some v \<longrightarrow> is_count v) \<Longrightarrow> is_count (dget m k (JInt 0))"
  by (cases "map_of m k") (simp_all add: dget_def)

text \<open>
  C9, as the code has it. In every record \<^verbatim>\<open>parse_mblog\<close> returns, \<^verbatim>\<open>reposts_count\<close>,
  \<^verbatim>\<open>comments_count\<close> and \<^verbatim>\<open>attitudes_count\<close> are the raw values of the mblog, and
  \<^verbatim>\<open>user_followers\<close> the raw \<^verbatim>\<open>followers_count\<close> of its user, each the integer 0
  when the field (or the user) is absent; so each is a non-negative integer whenever
  the raw value, if present, is one.
\<close>

theorem parse_mblog_counts:
  assumes "parse_mblog env (JDict m) = Some r"
  shows "r_reposts_count r = (case map_of m (ascii ''reposts_count'') of None \<Rightarrow> JInt 0 | Some v \<Rightarrow> v) \<and>
         r_comments_count r = (case map_of m (ascii ''comments_count'') of None \<Rightarrow> JInt 0 | Some v \<Rightarrow> v) \<and>
         r_attitudes_count r = (case map_of m (ascii ''attitudes_count'') of None \<Rightarrow> JInt 0 | Some v \<Rightarrow> v) \<and>
         (\<exists>u. (case map_of m (ascii ''user'') of None \<Rightarrow> JDict [] | Some v \<Rightarrow> v) = JDict u \<and>
              r_user_followers r = (case map_of u (ascii ''followers_count'') of None \<Rightarrow> JInt 0 | Some v \<Rightarrow> v)) \<and>
         ((\<forall>v. map_of m (ascii ''reposts_count'') = Some v \<longrightarrow> is_count v) \<longrightarrow> is_count (r_reposts_count r)) \<and>
         ((\<forall>v. map_of m (ascii ''comments_count'') = Some v \<longrightarrow> is_count v) \<longrightarrow> is_count (r_comments_count r)) \<and>
         ((\<forall>v. map_of m (ascii ''attitudes_count'') = Some v \<longrightarrow> is_count v) \<longrightarrow> is_count (r_attitudes_count r)) \<and>
         ((\<forall>u v. map_of m (ascii ''user'') = Some (JDict u) \<longrightarrow> map_of u (ascii ''followers_count'') = Some v \<longrightarrow> is_count v)
            \<longrightarrow> is_count (r_user_followers r))"
proof -
  from parse_mblog_SomeD [OF assms] obtain u where
    u: "dget m (ascii ''user'') (JDict []) = JDict u" and
    rc: "r_reposts_count r = dget m (ascii ''reposts_count'') (JInt 0)" and
    cc: "r_comments_count r = dget m (ascii ''comments_count'') (JInt 0)" and
    ac: "r_attitudes_count r = dget m (ascii ''attitudes_count'') (JInt 0)" and
    uf: "r_user_followers r = dget u (ascii ''followers_count'') (JInt 0)"
    by force
  have followers: "is_count (r_user_followers r)"
    if h: "\<forall>u v. map_of m (ascii ''user'') = Some (JDict u) \<longrightarrow> map_of u (ascii ''followers_count'') = Some v \<longrightarrow> is_count v"
  proof (cases "map_of m (ascii ''user'')")
    case None
    with u have "u = []" by (simp add: dget_def)
    with uf show ?thesis by (simp add: dget_def)
  next
    case (Some x)
    with u have "map_of m (ascii ''user'') = Some (JDict u)" by (simp add: dget_def)
    with h have "\<forall>v. map_of u (ascii ''followers_count'') = Some v \<longrightarrow> is_count v" by blast
    then show ?thesis unfolding uf by (rule is_count_dget)
  qed
  show ?thesis
  proof (intro conjI impI)
    show "\<exists>u. (case map_of m (ascii ''user'') of None \<Rightarrow> JDict [] | Some v \<Rightarrow> v) = JDict u \<and>
              r_user_followers r = (case map_of u (ascii ''followers_count'') of None \<Rightarrow> JInt 0 | Some v \<Rightarrow> v)"
      using u uf unfolding dget_def by blast
  qed (use rc cc ac followers in \<open>simp_all add: is_count_dget\<close>, simp_all add: dget_def)
qed

text \<open>C9 on an mblog with a comment count and a user, and no repost count.\<close>

theorem parse_mblog_counts_witness:
  "map_option r_reposts_count (parse_mblog demo_env
      (JDict [(ascii ''comments_count'', JInt 7),
              (ascii ''user'', JDict [(ascii ''followers_count'', JInt 120)])])) = Some (JInt 0) \<and>
   map_option r_comments_count (parse_mblog demo_env
      (JDict [(ascii ''comments_count'', JInt 7),
              (ascii ''user'', JDict [(ascii ''followers_count'', JInt 120)])])) = Some (JInt 7) \<and>
   map_option r_user_followers (parse_mblog demo_env
      (JDict [(ascii ''comments_count'', JInt 7),
              (ascii ''user'', JDict [(ascii ''followers_count'', JInt 120)])])) = Some (JInt 120)"
proof -
  let ?m = "[(ascii ''comments_count'', JInt 7),
             (ascii ''user'', JDict [(ascii ''followers_count'', JInt 120)])]"
  obtain r where r: "parse_mblog demo_env (JDict ?m) = Some r"
    by (simp add: parse_mblog_def retweet_part_def dget_def ascii_def Let_def)
  from parse_mblog_counts [OF r] have
    "r_reposts_count r = JInt 0" "r_comments_count r = JInt 7" "r_user_followers r = JInt 120"
    by (auto simp: ascii_def)
  with r show ?thesis by simp
qed

text \<open>
  C9 as stated fails: a raw counter that is negative, or a string, reaches the record
  as it is.
\<close>

theorem parse_mblog_counts_raw:
  "map_option r_reposts_count (parse_mblog demo_env
      (JDict [(ascii ''reposts_count'', JInt (- 1)), (ascii ''comments_count'', JStr (ascii ''100+''))]))
     = Some (JInt (- 1)) \<and>
   map_option r_comments_count (parse_mblog demo_env
      (JDict [(ascii ''reposts_count'', JInt (- 1)), (ascii ''comments_count'', JStr (ascii ''100+''))]))
     = Some (JStr (ascii ''100+'')) \<and>
   \<not> is_count (JInt (- 1)) \<and> \<not> is_count (JStr (ascii ''100+''))"
  by (simp add: parse_mblog_def retweet_part_def dget_def ascii_def Let_def)


subsection \<open>Timestamps\<close>

lemma take_length_eq_iff: "(take (length sub) s = sub) = (\<exists>q. s = sub @ q)"
proof
  assume "take (length sub) s = sub"
  then have "s = sub @ drop (length sub) s"
    by (metis append_take_drop_id)
  then show "\<exists>q. s = sub @ q" ..
next
  assume "\<exists>q. s = sub @ q"
  then show "take (length sub) s = sub" by auto
qed

lemma str_contains_iff: "str_contains sub s = (\<exists>p q. s = p @ sub @ q)"
proof (induction s)
  case Nil
  then show ?case by auto
next
  case (Cons c cs)
  have "(\<exists>p q. c # cs = p @ sub @ q) = ((\<exists>q. c # cs = sub @ q) \<or> (\<exists>p q. cs = p @ sub @ q))"
  proof
    assume "\<exists>p q. c # cs = p @ sub @ q"
    then obtain p q where pq: "c # cs = p @ sub @ q" by blast
    show "(\<exists>q. c # cs = sub @ q) \<or> (\<exists>p q. cs = p @ sub @ q)"
    proof (cases p)
      case Nil
      with pq show ?thesis by auto
    next
      case (Cons a p')
      with pq have "cs = p' @ sub @ q" by simp
      then show ?thesis by blast
    qed
  next
    assume "(\<exists>q. c # cs = sub @ q) \<or> (\<exists>p q. cs = p @ sub @ q)"
    then show "\<exists>p q. c # cs = p @ sub @ q"
    proof
      assume "\<exists>q. c # cs = sub @ q"
      then obtain q where "c # cs = [] @ sub @ q" by auto
      then show ?thesis by blast
    next
      assume "\<exists>p q. cs = p @ sub @ q"
      then obtain p q where "c # cs = (c # p) @ sub @ q" by auto
      then show ?thesis by blast
    qed
  qed
  with Cons show ?case
    by (simp only: str_contains.simps take_length_eq_iff)
qed

lemma normalize_created_at_str:
  "normalize_created_at env (JStr s) =
     (if str_contains minutes_ago s \<or> str_contains hours_ago s then JStr (now env)
      else (case to_datetime env (JStr s) of Some v \<Rightarrow> v | None \<Rightarrow> JStr s))"
  by (simp add: normalize_created_at_def created_at_try_def split: option.splits)

lemma is_str_iff: "is_str x = (\<exists>s. x = JStr s)"
  by (cases x) simp_all

lemma is_dict_iff: "is_dict x = (\<exists>kvs. x = JDict kvs)"
  by (cases x) simp_all

lemma retweet_part_ok: "(\<exists>b s. retweet_part env m = Inr (b, JStr s)) = text_ok m"
proof (cases "map_of m (ascii ''retweeted_status'')")
  case None
  then show ?thesis by (auto simp: retweet_part_def text_ok_def Let_def is_str_iff)
next
  case (Some rs)
  then show ?thesis by (cases rs) (auto simp: retweet_part_def text_ok_def Let_def)
qed

lemma parse_mblog_present:
  "(parse_mblog env (JDict m) \<noteq> None) =
     (text_ok m \<and> (\<exists>u. dget m (ascii ''user'') (JDict []) = JDict u))"
proof
  assume "parse_mblog env (JDict m) \<noteq> None"
  then obtain r where "parse_mblog env (JDict m) = Some r" by blast
  from parse_mblog_SomeD [OF this] obtain b s u where
    "retweet_part env m = Inr (b, JStr s)" "dget m (ascii ''user'') (JDict []) = JDict u"
    by blast
  with retweet_part_ok [of env m] show "text_ok m \<and> (\<exists>u. dget m (ascii ''user'') (JDict []) = JDict u)"
    by blast
next
  assume "text_ok m \<and> (\<exists>u. dget m (ascii ''user'') (JDict []) = JDict u)"
  with retweet_part_ok [of env m] obtain b s u where
    "retweet_part env m = Inr (b, JStr s)" "dget m (ascii ''user'') (JDict []) = JDict u"
    by blast
  then show "parse_mblog env (JDict m) \<noteq> None" by (rule parse_mblog_SomeI)
qed

lemma present_any_created_at:
  "(parse_mblog env' (JDict ((ascii ''created_at'', c) # m)) \<noteq> None) = (parse_mblog env (JDict m) \<noteq> None)"
  by (simp only: parse_mblog_present) (simp add: text_ok_def dget_def ascii_def split: option.split)

text \<open>
  C6. For every mblog whose raw \<^verbatim>\<open>created_at\<close> is a string (the empty one when the
  field is absent), the record's \<^verbatim>\<open>created_at\<close> is the clock of the parse when the
  raw string contains one of the two relative-time markers; otherwise it is what
  pandas makes of the raw string, or the raw string unchanged when pandas fails.
  Whatever the raw \<^verbatim>\<open>created_at\<close>, the clock and pandas are, the record is returned
  all the same.
\<close>

theorem parse_mblog_created_at:
  assumes "parse_mblog env (JDict m) = Some r"
    and "dget m (ascii ''created_at'') (JStr []) = JStr s"
  shows "(str_contains minutes_ago s \<or> str_contains hours_ago s \<longrightarrow> r_created_at r = JStr (now env)) \<and>
         (\<not> str_contains minutes_ago s \<and> \<not> str_contains hours_ago s \<longrightarrow>
            (\<forall>v. to_datetime env (JStr s) = Some v \<longrightarrow> r_created_at r = v) \<and>
            (to_datetime env (JStr s) = None \<longrightarrow> r_created_at r = JStr s)) \<and>
         (\<forall>env' c. parse_mblog env' (JDict ((ascii ''created_at'', c) # m)) \<noteq> None)"
proof -
  from parse_mblog_SomeD [OF assms(1)] assms(2)
  have "r_created_at r = normalize_created_at env (JStr s)"
    by force
  then have "r_created_at r =
     (if str_contains minutes_ago s \<or> str_contains hours_ago s then JStr (now env)
      else (case to_datetime env (JStr s) of Some v \<Rightarrow> v | None \<Rightarrow> JStr s))"
    by (simp only: normalize_created_at_str)
  moreover from assms(1) have "parse_mblog env' (JDict ((ascii ''created_at'', c) # m)) \<noteq> None" for env' c
    using present_any_created_at [of env' c m env] by simp
  ultimately show ?thesis by auto
qed

text \<open>C6 on \<^verbatim>\<open>"5"\<close> followed by the minutes marker, and on a raw string pandas rejects.\<close>

theorem parse_mblog_created_at_witness:
  "map_option r_created_at
     (parse_mblog demo_env (JDict [(ascii ''created_at'', JStr (53 # minutes_ago))]))
     = Some (JStr (now demo_env)) \<and>
   map_option r_created_at
     (parse_mblog demo_env (JDict [(ascii ''created_at'', JStr (ascii ''soon''))]))
     = Some (JStr (ascii ''soon'')) \<and>
   parse_mblog demo_env (JDict [(ascii ''created_at'', JNull), (ascii ''created_at'', JStr (ascii ''soon''))]) \<noteq> None"
proof -
  let ?a = "[(ascii ''created_at'', JStr (53 # minutes_ago))]"
  let ?b = "[(ascii ''created_at'', JStr (ascii ''soon''))]"
  obtain ra where ra: "parse_mblog demo_env (JDict ?a) = Some ra"
    by (simp add: parse_mblog_def retweet_part_def dget_def ascii_def Let_def)
  obtain rb where rb: "parse_mblog demo_env (JDict ?b) = Some rb"
    by (simp add: parse_mblog_def retweet_part_def dget_def ascii_def Let_def)
  have da: "dget ?a (ascii ''created_at'') (JStr []) = JStr (53 # minutes_ago)"
    by (simp add: dget_def)
  have db: "dget ?b (ascii ''created_at'') (JStr []) = JStr (ascii ''soon'')"
    by (simp add: dget_def)
  have ca: "str_contains minutes_ago (53 # minutes_ago)"
    by (simp add: minutes_ago_def)
  have cb: "\<not> str_contains minutes_ago (ascii ''soon'')" "\<not> str_contains hours_ago (ascii ''soon'')"
    "to_datetime demo_env (JStr (ascii ''soon'')) = None"
    by (simp_all add: minutes_ago_def hours_ago_def ascii_def demo_env_def)
  from parse_mblog_created_at [OF ra da] ca have "r_created_at ra = JStr (now demo_env)"
    by blast
  moreover from parse_mblog_created_at [OF rb db] cb have "r_created_at rb = JStr (ascii ''soon'')"
    by blast
  moreover from parse_mblog_created_at [OF rb db]
  have "parse_mblog demo_env (JDict ((ascii ''created_at'', JNull) # ?b)) \<noteq> None"
    by blast
  ultimately show ?thesis using ra rb by simp
qed

text \<open>
  C10. For every mblog whose raw \<^verbatim>\<open>created_at\<close> is a string, the clock of the parse is
  substituted exactly when that string contains the minutes marker or the hours
  marker as a substring; any other string goes to pandas, and comes back unchanged
  when pandas fails.
\<close>

theorem created_at_substitution:
  assumes "parse_mblog env (JDict m) = Some r"
    and "map_of m (ascii ''created_at'') = Some (JStr s)"
  shows "r_created_at r =
           (if (\<exists>p q. s = p @ minutes_ago @ q) \<or> (\<exists>p q. s = p @ hours_ago @ q)
            then JStr (now env)
            else (case to_datetime env (JStr s) of Some v \<Rightarrow> v | None \<Rightarrow> JStr s))"
proof -
  from assms(2) have "dget m (ascii ''created_at'') (JStr []) = JStr s"
    by (simp add: dget_def)
  with parse_mblog_SomeD [OF assms(1)]
  have "r_created_at r = normalize_created_at env (JStr s)"
    by force
  then show ?thesis
    by (simp only: normalize_created_at_str str_contains_iff)
qed

text \<open>The "just now" and "3 days ago" phrases are not substituted (the parser of \<open>demo_env\<close> fails).\<close>

theorem created_at_substitution_witness:
  "map_option r_created_at (parse_mblog demo_env (JDict [(ascii ''created_at'', JStr just_now)]))
     = Some (JStr just_now) \<and>
   map_option r_created_at (parse_mblog demo_env (JDict [(ascii ''created_at'', JStr three_days_ago)]))
     = Some (JStr three_days_ago) \<and>
   map_option r_created_at (parse_mblog demo_env (JDict [(ascii ''created_at'', JStr (49 # hours_ago))]))
     = Some (JStr (now demo_env))"
proof -
  let ?a = "[(ascii ''created_at'', JStr just_now)]"
  let ?b = "[(ascii ''created_at'', JStr three_days_ago)]"
  let ?c = "[(ascii ''created_at'', JStr (49 # hours_ago))]"
  obtain ra where ra: "parse_mblog demo_env (JDict ?a) = Some ra"
    by (simp add: parse_mblog_def retweet_part_def dget_def ascii_def Let_def)
  obtain rb where rb: "parse_mblog demo_env (JDict ?b) = Some rb"
    by (simp add: parse_mblog_def retweet_part_def dget_def ascii_def Let_def)
  obtain rc where rc: "parse_mblog demo_env (JDict ?c) = Some rc"
    by (simp add: parse_mblog_def retweet_part_def dget_def ascii_def Let_def)
  have na: "\<not> ((\<exists>p q. just_now = p @ minutes_ago @ q) \<or> (\<exists>p q. just_now = p @ hours_ago @ q))"
    by (simp only: str_contains_iff [symmetric]) (simp add: just_now_def minutes_ago_def hours_ago_def)
  have nb: "\<not> ((\<exists>p q. three_days_ago = p @ minutes_ago @ q) \<or> (\<exists>p q. three_days_ago = p @ hours_ago @ q))"
    by (simp only: str_contains_iff [symmetric]) (simp add: three_days_ago_def minutes_ago_def hours_ago_def)
  have yc: "(\<exists>p q. 49 # hours_ago = p @ minutes_ago @ q) \<or> (\<exists>p q. 49 # hours_ago = p @ hours_ago @ q)"
    by (simp only: str_contains_iff [symmetric]) (simp add: minutes_ago_def hours_ago_def)
  have nd: "to_datetime demo_env x = None" for x
    by (simp add: demo_env_def)
  have "r_created_at ra = JStr just_now"
    using created_at_substitution [OF ra, of just_now] na nd by simp
  moreover have "r_created_at rb = JStr three_days_ago"
    using created_at_substitution [OF rb, of three_days_ago] nb nd by simp
  moreover have "r_created_at rc = JStr (now demo_env)"
    using created_at_substitution [OF rc, of "49 # hours_ago"] yc by simp
  ultimately show ?thesis using ra rb rc by simp
qed


section \<open>The card parser: shapes\<close>

lemma py_eq_JInt: "py_eq x (JInt n) = (num_val x = Some (of_int n))"
  by (cases x) auto

lemma py_eq_9_not_11: "py_eq x (JInt 9) \<Longrightarrow> \<not> py_eq x (JInt 11)"
  by (simp add: py_eq_JInt)

lemma py_get_dict: "py_get (JDict kv) k d = Inr (dget kv k d)"
  by (simp add: dget_def)

lemma scan_group_hit:
  assumes "is_post_card (JDict sub)"
  shows "scan_group env (JDict sub # rest) = Inr (parse_mblog env (dget sub (ascii ''mblog'') (JDict [])))"
  using assms by (simp add: py_get_dict del: py_get.simps)

lemma scan_group_skip:
  assumes "\<forall>x\<in>set pre. is_dict x \<and> \<not> is_post_card x"
  shows "scan_group env (pre @ rest) = scan_group env rest"
  using assms
proof (induction pre)
  case Nil
  then show ?case by simp
next
  case (Cons x pre)
  then obtain kv where x: "x = JDict kv" by (cases x) auto
  with Cons.prems have "\<not> (py_eq (dget kv (ascii ''card_type'') JNull) (JInt 9) \<and>
      truthy (dget kv (ascii ''mblog'') (JDict [])))"
    by simp
  with Cons x show ?case
    by (auto simp add: py_get_dict simp del: py_get.simps)
qed

lemma scan_group_none:
  assumes "\<forall>x\<in>set items. \<not> is_post_card x"
  shows "scan_group env items = Inr None \<or> (\<exists>e. scan_group env items = Inl e)"
  using assms
proof (induction items)
  case Nil
  then show ?case by simp
next
  case (Cons x items)
  show ?case
  proof (cases x)
    case (JDict kv)
    with Cons.prems have "\<not> (py_eq (dget kv (ascii ''card_type'') JNull) (JInt 9) \<and>
        truthy (dget kv (ascii ''mblog'') (JDict [])))"
      by simp
    with Cons JDict show ?thesis
      by (auto simp add: py_get_dict simp del: py_get.simps)
  qed simp_all
qed

lemma parse_weibo_direct:
  assumes "is_post_card (JDict kv)"
  shows "parse_weibo env (JDict kv) = parse_mblog env (dget kv (ascii ''mblog'') (JDict []))"
  using assms
  by (simp add: parse_weibo_def parse_weibo_try_def py_get_dict py_eq_9_not_11 del: py_get.simps)

lemma parse_weibo_composite:
  assumes "py_eq (dget kv (ascii ''card_type'') JNull) (JInt 11)"
    and "dget kv (ascii ''card_group'') (JList []) = JList items"
  shows "parse_weibo env (JDict kv) = (case scan_group env items of Inl e \<Rightarrow> None | Inr r \<Rightarrow> r)"
  using assms
  by (simp add: parse_weibo_def parse_weibo_try_def py_get_dict del: py_get.simps)

text \<open>
  C7. A composite card (\<^verbatim>\<open>card_type\<close> 11) whose \<^verbatim>\<open>card_group\<close> lists, after sub-cards
  that are not post cards, a sub-card of \<^verbatim>\<open>card_type\<close> 9 with a non-empty mblog parses
  to what \<^verbatim>\<open>parse_mblog\<close> gives on that mblog, which is also what the sub-card gives
  as a direct card; a composite card with no such sub-card gives \<^verbatim>\<open>None\<close>.
\<close>

theorem parse_weibo_composite_direct:
  assumes "py_eq (dget kv (ascii ''card_type'') JNull) (JInt 11)"
    and "dget kv (ascii ''card_group'') (JList []) = JList items"
  shows "(\<forall>pre sub rest.
            items = pre @ JDict sub # rest \<and> (\<forall>x\<in>set pre. is_dict x \<and> \<not> is_post_card x) \<and>
            is_post_card (JDict sub) \<longrightarrow>
              parse_weibo env (JDict kv) = parse_mblog env (dget sub (ascii ''mblog'') (JDict [])) \<and>
              parse_weibo env (JDict kv) = parse_weibo env (JDict sub)) \<and>
         ((\<forall>x\<in>set items. \<not> is_post_card x) \<longrightarrow> parse_weibo env (JDict kv) = None)"
proof (intro conjI allI impI)
  fix pre sub rest
  assume h: "items = pre @ JDict sub # rest \<and> (\<forall>x\<in>set pre. is_dict x \<and> \<not> is_post_card x) \<and>
            is_post_card (JDict sub)"
  then have "scan_group env items = scan_group env (JDict sub # rest)"
    using scan_group_skip [of pre env "JDict sub # rest"] by blast
  with h have "scan_group env items = Inr (parse_mblog env (dget sub (ascii ''mblog'') (JDict [])))"
    by (simp only: scan_group_hit)
  with parse_weibo_composite [OF assms, of env]
  show c: "parse_weibo env (JDict kv) = parse_mblog env (dget sub (ascii ''mblog'') (JDict []))"
    by simp
  from h show "parse_weibo env (JDict kv) = parse_weibo env (JDict sub)"
    by (simp only: c parse_weibo_direct)
next
  assume "\<forall>x\<in>set items. \<not> is_post_card x"
  from scan_group_none [OF this, of env] parse_weibo_composite [OF assms, of env]
  show "parse_weibo env (JDict kv) = None"
    by auto
qed

lemma demo_mblog_parse:
  "map_option r_bid (parse_mblog demo_env (demo_mblog b)) = Some (JStr (ascii b))"
  by (simp add: demo_mblog_def parse_mblog_def retweet_part_def dget_def Let_def)
    (simp add: ascii_def)

text \<open>
  C7 on a composite card holding a sub-card of type 9 without mblog and then a post
  card, and on a composite card holding only the former.
\<close>

theorem parse_weibo_composite_direct_witness:
  "parse_weibo demo_env
     (JDict (composite_card [JDict [(ascii ''card_type'', JInt 9)], JDict (direct_card (demo_mblog ''b1''))]))
     = parse_weibo demo_env (JDict (direct_card (demo_mblog ''b1''))) \<and>
   map_option r_bid (parse_weibo demo_env
     (JDict (composite_card [JDict [(ascii ''card_type'', JInt 9)], JDict (direct_card (demo_mblog ''b1''))])))
     = Some (JStr (ascii ''b1'')) \<and>
   parse_weibo demo_env (JDict (composite_card [JDict [(ascii ''card_type'', JInt 9)]])) = None"
proof -
  let ?skip = "JDict [(ascii ''card_type'', JInt 9)]"
  let ?sub = "direct_card (demo_mblog ''b1'')"
  have ct: "py_eq (dget (composite_card xs) (ascii ''card_type'') JNull) (JInt 11)" for xs
    by (simp add: composite_card_def dget_def)
  have cg: "dget (composite_card xs) (ascii ''card_group'') (JList []) = JList xs" for xs
    by (simp add: composite_card_def dget_def ascii_def)
  have skip: "\<not> is_post_card ?skip"
    by (simp add: dget_def ascii_def)
  have mb: "dget ?sub (ascii ''mblog'') (JDict []) = demo_mblog ''b1''"
    by (simp add: direct_card_def dget_def ascii_def)
  have sub: "is_post_card (JDict ?sub)"
    by (simp add: mb) (simp add: direct_card_def dget_def demo_mblog_def)
  note a = parse_weibo_composite_direct [OF ct cg, of "[?skip, JDict ?sub]" demo_env]
  note b = parse_weibo_composite_direct [OF ct cg, of "[?skip]" demo_env]
  have l: "[?skip, JDict ?sub] = [?skip] @ JDict ?sub # []"
    by simp
  have pre: "\<forall>x\<in>set [?skip]. is_dict x \<and> \<not> is_post_card x"
    using skip by simp
  from a l pre sub have
    "parse_weibo demo_env (JDict (composite_card [?skip, JDict ?sub])) =
        parse_mblog demo_env (dget ?sub (ascii ''mblog'') (JDict [])) \<and>
     parse_weibo demo_env (JDict (composite_card [?skip, JDict ?sub])) = parse_weibo demo_env (JDict ?sub)"
    by blast
  then have x: "parse_weibo demo_env (JDict (composite_card [?skip, JDict ?sub])) =
        parse_mblog demo_env (dget ?sub (ascii ''mblog'') (JDict []))"
    and y: "parse_weibo demo_env (JDict (composite_card [?skip, JDict ?sub])) = parse_weibo demo_env (JDict ?sub)"
    by blast+
  from x have "map_option r_bid (parse_weibo demo_env (JDict (composite_card [?skip, JDict ?sub]))) =
      Some (JStr (ascii ''b1''))"
    by (simp only: mb demo_mblog_parse)
  note this y
  moreover have "\<forall>x\<in>set [?skip]. \<not> is_post_card x"
    using skip by simp
  with b have "parse_weibo demo_env (JDict (composite_card [?skip])) = None"
    by blast
  ultimately show ?thesis
    by blast
qed

section \<open>The fetch loop: deduplication\<close>

lemma unique_bids_snoc:
  "unique_bids (ps @ [w]) = (unique_bids ps \<and> \<not> list_ex (\<lambda>p. py_eq (r_bid p) (r_bid w)) ps)"
  by (induction ps) (auto simp: list_all_iff list_ex_iff)

lemma unique_bids_nth:
  "unique_bids ps = (\<forall>i j. i < j \<and> j < length ps \<longrightarrow> \<not> py_eq (r_bid (ps ! i)) (r_bid (ps ! j)))"
proof (induction ps)
  case Nil
  then show ?case by simp
next
  case (Cons p ps)
  show ?case
  proof
    assume u: "unique_bids (p # ps)"
    show "\<forall>i j. i < j \<and> j < length (p # ps) \<longrightarrow> \<not> py_eq (r_bid ((p # ps) ! i)) (r_bid ((p # ps) ! j))"
    proof (intro allI impI)
      fix i j assume ij: "i < j \<and> j < length (p # ps)"
      then obtain j' where j: "j = Suc j'" by (cases j) auto
      show "\<not> py_eq (r_bid ((p # ps) ! i)) (r_bid ((p # ps) ! j))"
      proof (cases i)
        case 0
        from ij j have "ps ! j' \<in> set ps" by simp
        with u 0 j show ?thesis by (simp add: list_all_iff)
      next
        case (Suc i')
        with ij j have "i' < j' \<and> j' < length ps" by simp
        with u Cons.IH Suc j show ?thesis by simp
      qed
    qed
  next
    assume h: "\<forall>i j. i < j \<and> j < length (p # ps) \<longrightarrow> \<not> py_eq (r_bid ((p # ps) ! i)) (r_bid ((p # ps) ! j))"
    have "\<not> py_eq (r_bid p) (r_bid q)" if "q \<in> set ps" for q
    proof -
      from that obtain k where k: "k < length ps" "ps ! k = q" by (auto simp: in_set_conv_nth)
      with h [rule_format, of 0 "Suc k"] show ?thesis by simp
    qed
    moreover have "\<not> py_eq (r_bid (ps ! i)) (r_bid (ps ! j))" if "i < j \<and> j < length ps" for i j
      using h [rule_format, of "Suc i" "Suc j"] that by simp
    ultimately show "unique_bids (p # ps)"
      using Cons.IH by (simp add: list_all_iff)
  qed
qed

lemma cards_loop_step:
  assumes "show_card c = Inr ()" and "parse_weibo (envs i) c = Some r"
  shows "cards_loop envs i (c # cs) (posts, k) =
           (if list_ex (\<lambda>p. py_eq (r_bid p) (r_bid r)) posts
            then (case py_print (r_bid r) of
                    Inl e \<Rightarrow> Inl (e, posts)
                  | Inr u \<Rightarrow> cards_loop envs (Suc i) cs (posts, k))
            else (case py_print (r_bid r) of
                    Inl e \<Rightarrow> Inl (e, posts @ [r])
                  | Inr u \<Rightarrow> cards_loop envs (Suc i) cs (posts @ [r], k + 1)))"
  using assms by simp

lemma cards_loop_cases:
  "(\<exists>e. cards_loop envs i (c # cs) (posts, k) = Inl (e, posts)) \<or>
   (\<exists>e r. \<not> list_ex (\<lambda>p. py_eq (r_bid p) (r_bid r)) posts \<and>
          cards_loop envs i (c # cs) (posts, k) = Inl (e, posts @ [r])) \<or>
   cards_loop envs i (c # cs) (posts, k) = cards_loop envs (Suc i) cs (posts, k) \<or>
   (\<exists>r. \<not> list_ex (\<lambda>p. py_eq (r_bid p) (r_bid r)) posts \<and>
        cards_loop envs i (c # cs) (posts, k) = cards_loop envs (Suc i) cs (posts @ [r], k + 1))"
proof (cases "show_card c")
  case (Inl e)
  then show ?thesis by simp
next
  case (Inr u)
  show ?thesis
  proof (cases "parse_weibo (envs i) c")
    case None
    with Inr show ?thesis by simp
  next
    case (Some r)
    show ?thesis
    proof (cases "py_print (r_bid r)")
      case (Inl e)
      with Inr Some show ?thesis by (cases "list_ex (\<lambda>p. py_eq (r_bid p) (r_bid r)) posts") auto
    next
      case p: (Inr u')
      with Inr Some show ?thesis by (cases "list_ex (\<lambda>p. py_eq (r_bid p) (r_bid r)) posts") auto
    qed
  qed
qed

lemma cards_loop_extends:
  "\<exists>new. loop_posts (cards_loop envs i cs (posts, k)) = posts @ new \<and>
         (\<forall>ps n. cards_loop envs i cs (posts, k) = Inr (ps, n) \<longrightarrow> n = k + length new)"
proof (induction cs arbitrary: i posts k)
  case Nil
  then show ?case by (simp add: loop_posts_def)
next
  case (Cons c cs)
  from cards_loop_cases [of envs i c cs posts k] show ?case
  proof (elim disjE exE conjE)
    fix e assume "cards_loop envs i (c # cs) (posts, k) = Inl (e, posts)"
    then show ?thesis by (simp add: loop_posts_def)
  next
    fix e r assume "cards_loop envs i (c # cs) (posts, k) = Inl (e, posts @ [r])"
    then show ?thesis by (simp add: loop_posts_def)
  next
    assume "cards_loop envs i (c # cs) (posts, k) = cards_loop envs (Suc i) cs (posts, k)"
    with Cons.IH [of "Suc i" posts k] show ?thesis by simp
  next
    fix r assume h: "cards_loop envs i (c # cs) (posts, k) = cards_loop envs (Suc i) cs (posts @ [r], k + 1)"
    from Cons.IH [of "Suc i" "posts @ [r]" "k + 1"] obtain new where
      n: "loop_posts (cards_loop envs (Suc i) cs (posts @ [r], k + 1)) = (posts @ [r]) @ new"
         "\<forall>ps n. cards_loop envs (Suc i) cs (posts @ [r], k + 1) = Inr (ps, n) \<longrightarrow> n = k + 1 + length new"
      by blast
    have "loop_posts (cards_loop envs i (c # cs) (posts, k)) = posts @ (r # new) \<and>
         (\<forall>ps n. cards_loop envs i (c # cs) (posts, k) = Inr (ps, n) \<longrightarrow> n = k + length (r # new))"
      using n unfolding h by simp
    then show ?thesis by blast
  qed
qed

lemma cards_loop_unique:
  "unique_bids posts \<Longrightarrow> unique_bids (loop_posts (cards_loop envs i cs (posts, k)))"
proof (induction cs arbitrary: i posts k)
  case Nil
  then show ?case by (simp add: loop_posts_def)
next
  case (Cons c cs)
  from cards_loop_cases [of envs i c cs posts k] show ?case
  proof (elim disjE exE conjE)
    fix e assume "cards_loop envs i (c # cs) (posts, k) = Inl (e, posts)"
    with Cons.prems show ?thesis by (simp add: loop_posts_def)
  next
    fix e r assume "\<not> list_ex (\<lambda>p. py_eq (r_bid p) (r_bid r)) posts"
      "cards_loop envs i (c # cs) (posts, k) = Inl (e, posts @ [r])"
    with Cons.prems show ?thesis by (simp add: loop_posts_def unique_bids_snoc)
  next
    assume "cards_loop envs i (c # cs) (posts, k) = cards_loop envs (Suc i) cs (posts, k)"
    with Cons.IH [OF Cons.prems, of "Suc i" k] show ?thesis by simp
  next
    fix r assume d: "\<not> list_ex (\<lambda>p. py_eq (r_bid p) (r_bid r)) posts"
      and h: "cards_loop envs i (c # cs) (posts, k) = cards_loop envs (Suc i) cs (posts @ [r], k + 1)"
    from d Cons.prems have "unique_bids (posts @ [r])" by (simp add: unique_bids_snoc)
    from Cons.IH [OF this, of "Suc i" "k + 1"] show ?thesis unfolding h .
  qed
qed

text \<open>What a page leaves in \<^verbatim>\<open>all_data\<close>.\<close>

lemma page_cards_posts:
  "(\<forall>e ps. page_cards envs data posts = Transient e ps \<longrightarrow>
        (\<exists>new. ps = posts @ new) \<and> (unique_bids posts \<longrightarrow> unique_bids ps)) \<and>
   (\<forall>ps n. page_cards envs data posts = Fetched ps n \<longrightarrow>
        (\<exists>new. ps = posts @ new \<and> n = length new) \<and> (unique_bids posts \<longrightarrow> unique_bids ps))"
proof -
  have loop: "(\<forall>e ps. cards_loop envs 0 items (posts, 0) = Inl (e, ps) \<longrightarrow>
        (\<exists>new. ps = posts @ new) \<and> (unique_bids posts \<longrightarrow> unique_bids ps)) \<and>
     (\<forall>ps n. cards_loop envs 0 items (posts, 0) = Inr (ps, n) \<longrightarrow>
        (\<exists>new. ps = posts @ new \<and> n = length new) \<and> (unique_bids posts \<longrightarrow> unique_bids ps))" for items
    using cards_loop_extends [of envs 0 items posts 0] cards_loop_unique [of posts envs 0 items 0]
    by (auto simp: loop_posts_def)
  show ?thesis
  proof (intro conjI allI impI)
    fix e ps assume "page_cards envs data posts = Transient e ps"
    then have "ps = posts \<or> (\<exists>items. cards_loop envs 0 items (posts, 0) = Inl (e, ps))"
      by (auto simp: page_cards_def split: sum.splits prod.splits)
    with loop show "\<exists>new. ps = posts @ new" and "unique_bids posts \<Longrightarrow> unique_bids ps"
      by auto
  next
    fix ps n assume "page_cards envs data posts = Fetched ps n"
    then have "\<exists>items. cards_loop envs 0 items (posts, 0) = Inr (ps, n)"
      by (auto simp: page_cards_def split: sum.splits prod.splits)
    with loop show "\<exists>new. ps = posts @ new \<and> n = length new" and "unique_bids posts \<Longrightarrow> unique_bids ps"
      by auto
  qed
qed

lemma fetch_page_cases:
  "fetch_page w p posts = Transient RequestError posts \<or>
   fetch_page w p posts = Transient AttributeError posts \<or>
   fetch_page w p posts = ProviderFailure \<or>
   (\<exists>data. fetch_page w p posts = page_cards (env_at w p) data posts)"
proof (cases "fetch w p")
  case Raised
  then show ?thesis by (simp add: fetch_page_def)
next
  case (Body j)
  then show ?thesis by (cases j) (auto simp: fetch_page_def split: option.splits)
qed

lemma fetch_page_posts:
  "(\<forall>e ps. fetch_page w p posts = Transient e ps \<longrightarrow>
        (\<exists>new. ps = posts @ new) \<and> (unique_bids posts \<longrightarrow> unique_bids ps)) \<and>
   (\<forall>ps n. fetch_page w p posts = Fetched ps n \<longrightarrow>
        (\<exists>new. ps = posts @ new \<and> n = length new) \<and> (unique_bids posts \<longrightarrow> unique_bids ps))"
  using fetch_page_cases [of w p posts] page_cards_posts [of "env_at w p" _ posts]
  by (elim disjE exE) (simp, simp, simp, simp)

lemma fetch_page_Fetched:
  assumes "fetch_page w p posts = Fetched posts' n"
  shows "(\<exists>new. posts' = posts @ new \<and> n = length new) \<and> (unique_bids posts \<longrightarrow> unique_bids posts')"
  using assms fetch_page_posts [of w p posts] by blast

lemma page_iter_cases:
  "(\<exists>e posts'. fetch_page w p (all_data st) = Transient e posts' \<and>
        page_iter w p st = (Next, st\<lparr>requested := requested st @ [p], all_data := posts'\<rparr>)) \<or>
   (fetch_page w p (all_data st) = ProviderFailure \<and>
        page_iter w p st = (Stop, st\<lparr>requested := requested st @ [p]\<rparr>)) \<or>
   (\<exists>posts' n. fetch_page w p (all_data st) = Fetched posts' n \<and>
        page_iter w p st =
          (if n = 0 \<and> consecutive_empty st + 1 \<ge> 3 then Stop else Next,
           st\<lparr>requested := requested st @ [p], all_data := posts',
              consecutive_empty := (if n = 0 then consecutive_empty st + 1 else 0)\<rparr>))"
  by (cases "fetch_page w p (all_data st)") (simp_all add: page_iter_def Let_def)

lemma page_iter_data:
  "(\<exists>new. all_data (snd (page_iter w p st)) = all_data st @ new) \<and>
   (unique_bids (all_data st) \<longrightarrow> unique_bids (all_data (snd (page_iter w p st)))) \<and>
   requested (snd (page_iter w p st)) = requested st @ [p]"
  using page_iter_cases [of w p st] fetch_page_posts [of w p "all_data st"]
  by (elim disjE exE conjE) (fastforce, simp, fastforce)

lemma pages_loop_data:
  "(\<exists>new. all_data (pages_loop w ps st) = all_data st @ new) \<and>
   (unique_bids (all_data st) \<longrightarrow> unique_bids (all_data (pages_loop w ps st)))"
proof (induction ps arbitrary: st)
  case Nil
  then show ?case by simp
next
  case (Cons p ps)
  obtain c st' where it: "page_iter w p st = (c, st')" by (cases "page_iter w p st")
  from page_iter_data [of w p st] it obtain new where
    st': "all_data st' = all_data st @ new" "unique_bids (all_data st) \<longrightarrow> unique_bids (all_data st')"
    by auto
  show ?case
  proof (cases c)
    case Stop
    with it st' show ?thesis by simp
  next
    case Next
    from Cons.IH [of st'] obtain new' where
      "all_data (pages_loop w ps st') = all_data st' @ new'"
      "unique_bids (all_data st') \<longrightarrow> unique_bids (all_data (pages_loop w ps st'))"
      by blast
    with it st' Next show ?thesis by simp
  qed
qed

subsection \<open>Evaluating the examples\<close>

lemma utf8_ok_ascii: "utf8_ok (ascii s)"
proof -
  have "of_char c < (0xD800::nat)" for c :: char
    by (rule less_trans [OF nat_of_char_less_256]) simp
  then show ?thesis by (simp add: utf8_ok_def ascii_def list_all_iff)
qed

lemma demo_mblog_record: "parse_mblog demo_env (demo_mblog b) = Some (demo_post b)"
  by (simp add: ascii_def demo_env_def demo_mblog_def demo_post_def parse_mblog_def retweet_part_def
      dget_def Let_def normalize_created_at_def created_at_try_def minutes_ago_def hours_ago_def)

lemma surrogate_mblog_record: "parse_mblog demo_env surrogate_mblog = Some surrogate_post"
  by (simp add: ascii_def demo_env_def surrogate_mblog_def surrogate_post_def parse_mblog_def
      retweet_part_def dget_def Let_def normalize_created_at_def created_at_try_def minutes_ago_def
      hours_ago_def)

lemma direct_card_parse:
  assumes "truthy mblog"
  shows "parse_weibo env (JDict (direct_card mblog)) = parse_mblog env mblog"
proof -
  have "is_post_card (JDict (direct_card mblog))"
    using assms by (simp add: direct_card_def dget_def ascii_def)
  from parse_weibo_direct [OF this, of env] show ?thesis
    by (simp add: direct_card_def dget_def ascii_def)
qed

lemma post_card_parse: "parse_weibo demo_env (post_card b) = Some (demo_post b)"
  unfolding post_card_def
  by (subst direct_card_parse) (simp_all add: demo_mblog_record, simp add: demo_mblog_def)

lemma surrogate_card_parse: "parse_weibo demo_env surrogate_card = Some surrogate_post"
  unfolding surrogate_card_def
  by (subst direct_card_parse) (simp_all add: surrogate_mblog_record, simp add: surrogate_mblog_def)

lemma composite_card_fields:
  "py_eq (dget (composite_card xs) (ascii ''card_type'') JNull) (JInt 11)"
  "dget (composite_card xs) (ascii ''card_group'') (JList []) = JList xs"
  by (simp_all add: composite_card_def dget_def ascii_def)

lemma composite_post_card_parse:
  "parse_weibo demo_env (JDict (composite_card [post_card b])) = Some (demo_post b)"
proof -
  have "is_post_card (JDict (direct_card (demo_mblog b)))"
    by (simp add: direct_card_def dget_def demo_mblog_def ascii_def)
  then have "scan_group demo_env [post_card b] = Inr (parse_weibo demo_env (post_card b))"
    by (simp only: post_card_def scan_group_hit parse_weibo_direct)
  with parse_weibo_composite [of "composite_card [post_card b]" "[post_card b]" demo_env,
      OF composite_card_fields]
  show ?thesis
    by (simp add: post_card_parse)
qed

lemma broken_composite_parse:
  "parse_weibo demo_env (JDict (composite_card (JInt 5 # xs))) = None"
  using parse_weibo_composite [of "composite_card (JInt 5 # xs)" "JInt 5 # xs" demo_env,
      OF composite_card_fields]
  by simp

lemma ascii_eq_iff: "(ascii a = ascii b) = (a = b)"
  unfolding ascii_def by (rule inj_map_eq_map) (rule inj_of_char)

lemma demo_post_eq: "py_eq (r_bid (demo_post a)) (r_bid (demo_post b)) = (a = b)"
  by (auto simp: demo_post_def ascii_eq_iff)

lemma surrogate_post_eq:
  "py_eq (r_bid surrogate_post) (r_bid surrogate_post)"
  "\<not> py_eq (r_bid surrogate_post) (r_bid (demo_post b))"
  "\<not> py_eq (r_bid (demo_post b)) (r_bid surrogate_post)"
proof -
  have "ascii b \<noteq> [0xD800]"
    using utf8_ok_ascii [of b] by (auto simp: utf8_ok_def)
  then show "py_eq (r_bid surrogate_post) (r_bid surrogate_post)"
    "\<not> py_eq (r_bid surrogate_post) (r_bid (demo_post b))"
    "\<not> py_eq (r_bid (demo_post b)) (r_bid surrogate_post)"
    by (auto simp: surrogate_post_def demo_post_def)
qed

lemma show_card_examples:
  "show_card (post_card b) = Inr ()"
  "show_card surrogate_card = Inr ()"
  "show_card (JDict (composite_card xs)) = Inr ()"
  "show_card odd_type_card = Inl UnicodeEncodeError"
  "show_card (JInt n) = Inl AttributeError"
  by (simp_all add: show_card_def post_card_def surrogate_card_def direct_card_def
      composite_card_def odd_type_card_def utf8_ok_def)

lemma print_bid_examples:
  "py_print (r_bid (demo_post b)) = Inr ()"
  "py_print (r_bid surrogate_post) = Inl UnicodeEncodeError"
  by (simp_all add: demo_post_def surrogate_post_def utf8_ok_ascii) (simp add: utf8_ok_def)

lemma card_types_post_card [simp]:
  "card_types (post_card b # cs) =
     (case card_types cs of Inl e \<Rightarrow> Inl e | Inr ts \<Rightarrow> Inr (JInt 9 # ts))"
  by (simp add: post_card_def direct_card_def)

lemma card_types_surrogate_card [simp]:
  "card_types (surrogate_card # cs) =
     (case card_types cs of Inl e \<Rightarrow> Inl e | Inr ts \<Rightarrow> Inr (JInt 9 # ts))"
  by (simp add: surrogate_card_def direct_card_def)

lemma card_types_composite_card [simp]:
  "card_types (JDict (composite_card xs) # cs) =
     (case card_types cs of Inl e \<Rightarrow> Inl e | Inr ts \<Rightarrow> Inr (JInt 11 # ts))"
  by (simp add: composite_card_def)

lemma card_types_odd_type_card [simp]:
  "card_types (odd_type_card # cs) =
     (case card_types cs of Inl e \<Rightarrow> Inl e | Inr ts \<Rightarrow> Inr (JStr [0xD800] # ts))"
  by (simp add: odd_type_card_def)

lemma fetch_page_ok_body:
  assumes "fetch w p = Body (ok_body cards)"
  shows "fetch_page w p posts =
           (case card_types cards of
              Inl e \<Rightarrow> Transient e posts
            | Inr ts \<Rightarrow>
                (case cards_loop (env_at w p) 0 cards (posts, 0) of
                   Inl (e, ps) \<Rightarrow> Transient e ps
                 | Inr (ps, n) \<Rightarrow> Fetched ps n))"
  using assms
  by (simp add: ascii_def fetch_page_def ok_body_def dget_def page_cards_def)

lemma env_at_world_of [simp]: "env_at (world_of f) p = (\<lambda>i. demo_env)"
  by (simp add: world_of_def)

lemma fetch_world_of [simp]: "fetch (world_of f) = f"
  by (simp add: world_of_def)

lemma cards_loop_post_card [simp]:
  "cards_loop (\<lambda>i. demo_env) i (post_card b # cs) (posts, k) =
     (if list_ex (\<lambda>p. py_eq (r_bid p) (r_bid (demo_post b))) posts
      then cards_loop (\<lambda>i. demo_env) (Suc i) cs (posts, k)
      else cards_loop (\<lambda>i. demo_env) (Suc i) cs (posts @ [demo_post b], k + 1))"
  by (simp add: show_card_examples post_card_parse print_bid_examples)

lemma cards_loop_composite_post_card [simp]:
  "cards_loop (\<lambda>i. demo_env) i (JDict (composite_card [post_card b]) # cs) (posts, k) =
     (if list_ex (\<lambda>p. py_eq (r_bid p) (r_bid (demo_post b))) posts
      then cards_loop (\<lambda>i. demo_env) (Suc i) cs (posts, k)
      else cards_loop (\<lambda>i. demo_env) (Suc i) cs (posts @ [demo_post b], k + 1))"
  by (simp add: show_card_examples composite_post_card_parse print_bid_examples)

lemma cards_loop_surrogate_card [simp]:
  "cards_loop (\<lambda>i. demo_env) i (surrogate_card # cs) (posts, k) =
     (if list_ex (\<lambda>p. py_eq (r_bid p) (r_bid surrogate_post)) posts
      then Inl (UnicodeEncodeError, posts)
      else Inl (UnicodeEncodeError, posts @ [surrogate_post]))"
  by (simp add: show_card_examples surrogate_card_parse print_bid_examples)

lemma overlap_page_1:
  "fetch_page (world_of overlap_fetch) 1 [] = Fetched [demo_post ''b1'', demo_post ''b2''] 2"
proof -
  have "fetch (world_of overlap_fetch) 1 = Body (ok_body [post_card ''b1'', post_card ''b2'', post_card ''b1''])"
    by (simp add: overlap_fetch_def)
  from fetch_page_ok_body [OF this, of "[]"] show ?thesis
    by (simp add: demo_post_eq del: cards_loop.simps(2) card_types.simps(2))
qed

lemma overlap_page_2:
  "fetch_page (world_of overlap_fetch) 2 [demo_post ''b1'', demo_post ''b2'']
     = Fetched [demo_post ''b1'', demo_post ''b2'', demo_post ''b3''] 1"
proof -
  have "fetch (world_of overlap_fetch) 2 =
      Body (ok_body [JDict (composite_card [post_card ''b2'']), post_card ''b3''])"
    by (simp add: overlap_fetch_def)
  from fetch_page_ok_body [OF this, of "[demo_post ''b1'', demo_post ''b2'']"]
  show ?thesis
    by (simp add: demo_post_eq del: cards_loop.simps(2) card_types.simps(2))
qed

lemma overlap_page_later:
  assumes "2 < p"
  shows "fetch_page (world_of overlap_fetch) p [demo_post ''b1'', demo_post ''b2'', demo_post ''b3'']
     = Fetched [demo_post ''b1'', demo_post ''b2'', demo_post ''b3''] 0"
proof -
  from assms have "fetch (world_of overlap_fetch) p = Body (ok_body [post_card ''b3''])"
    by (simp add: overlap_fetch_def)
  from fetch_page_ok_body [OF this, of "[demo_post ''b1'', demo_post ''b2'', demo_post ''b3'']"]
  show ?thesis
    by (simp add: demo_post_eq del: cards_loop.simps(2) card_types.simps(2))
qed

lemma overlap_two_pages:
  "pages_loop (world_of overlap_fetch) (1 # 2 # ps) \<lparr>all_data = [], consecutive_empty = 0, requested = []\<rparr>
     = pages_loop (world_of overlap_fetch) ps
         \<lparr>all_data = [demo_post ''b1'', demo_post ''b2'', demo_post ''b3''],
           consecutive_empty = 0, requested = [1, 2]\<rparr>"
  by (simp add: page_iter_def overlap_page_1 overlap_page_2)

section \<open>The card parser inside the loop\<close>







section \<open>The fetch loop: claims\<close>

text \<open>
  C2, as the code has it. In the table \<^verbatim>\<open>get_weibo_data\<close> returns no two records
  have equal bids (so no two have the same string as bid). A parsed record is
  compared with every record accumulated so far, of this page and of the pages
  before: when one of them has an equal bid the record is not inserted, otherwise it
  is appended at the end; in both cases the loop goes on with the next card when the
  bid prints, and leaves the page with the exception when it does not. Records once
  accumulated stay, in their order, to the end of the run.
\<close>

theorem get_weibo_data_dedup:
  "(\<forall>rs. get_weibo_data w keyword n = Inr rs \<longrightarrow>
       (\<forall>i j. i < j \<and> j < length rs \<longrightarrow> \<not> py_eq (r_bid (rs ! i)) (r_bid (rs ! j))) \<and>
       (\<forall>i j s. i < j \<and> j < length rs \<and> r_bid (rs ! i) = JStr s \<longrightarrow> r_bid (rs ! j) \<noteq> JStr s)) \<and>
   (\<forall>envs i c cs posts k r. show_card c = Inr () \<and> parse_weibo (envs i) c = Some r \<longrightarrow>
       cards_loop envs i (c # cs) (posts, k) =
         (if list_ex (\<lambda>p. py_eq (r_bid p) (r_bid r)) posts
          then (case py_print (r_bid r) of
                  Inl e \<Rightarrow> Inl (e, posts)
                | Inr u \<Rightarrow> cards_loop envs (Suc i) cs (posts, k))
          else (case py_print (r_bid r) of
                  Inl e \<Rightarrow> Inl (e, posts @ [r])
                | Inr u \<Rightarrow> cards_loop envs (Suc i) cs (posts @ [r], k + 1)))) \<and>
   (\<forall>pages st. \<exists>new. all_data (pages_loop w pages st) = all_data st @ new)"
proof -
  have u: "unique_bids (all_data (run w n))"
    using pages_loop_data [of w "[1..n]" "\<lparr>all_data = [], consecutive_empty = 0, requested = []\<rparr>"]
    by (simp add: run_def)
  have a: "\<not> py_eq (r_bid (rs ! i)) (r_bid (rs ! j))"
    if "get_weibo_data w keyword n = Inr rs" "i < j \<and> j < length rs" for rs i j
  proof -
    from that(1) have "rs = all_data (run w n)"
      by (simp add: get_weibo_data_def split: if_splits)
    with u have "unique_bids rs" by simp
    with that(2) show ?thesis by (simp only: unique_bids_nth) blast
  qed
  have b: "r_bid (rs ! j) \<noteq> JStr s"
    if "get_weibo_data w keyword n = Inr rs" "i < j \<and> j < length rs \<and> r_bid (rs ! i) = JStr s" for rs i j s
  proof
    assume "r_bid (rs ! j) = JStr s"
    with that have "py_eq (r_bid (rs ! i)) (r_bid (rs ! j))"
      by simp
    with a [OF that(1), of i j] that(2) show False by blast
  qed
  have c: "\<exists>new. all_data (pages_loop w pages st) = all_data st @ new" for pages st
    using pages_loop_data [of w pages st] by blast
  show ?thesis
  proof (intro conjI allI impI)
    fix envs :: "nat \<Rightarrow> parse_env" and i c cs posts and k :: nat and r
    assume "show_card c = Inr () \<and> parse_weibo (envs i) c = Some r"
    then show "cards_loop envs i (c # cs) (posts, k) =
         (if list_ex (\<lambda>p. py_eq (r_bid p) (r_bid r)) posts
          then (case py_print (r_bid r) of
                  Inl e \<Rightarrow> Inl (e, posts)
                | Inr u \<Rightarrow> cards_loop envs (Suc i) cs (posts, k))
          else (case py_print (r_bid r) of
                  Inl e \<Rightarrow> Inl (e, posts @ [r])
                | Inr u \<Rightarrow> cards_loop envs (Suc i) cs (posts @ [r], k + 1)))"
      by (simp only: cards_loop_step)
  qed (use a b c in blast)+
qed

text \<open>
  C2 on two pages that overlap: b1, b2, b1 and then b2, b3 give the records of b1,
  b2 and b3, in that order.
\<close>

theorem get_weibo_data_dedup_witness:
  "get_weibo_data (world_of overlap_fetch) demo_keyword 2 =
     Inr [demo_post ''b1'', demo_post ''b2'', demo_post ''b3''] \<and>
   \<not> py_eq (r_bid ([demo_post ''b1'', demo_post ''b2'', demo_post ''b3''] ! 0))
            (r_bid ([demo_post ''b1'', demo_post ''b2'', demo_post ''b3''] ! 2))"
proof -
  let ?rs = "[demo_post ''b1'', demo_post ''b2'', demo_post ''b3'']"
  have u: "[1..2] = [1, 2::int]"
    by (simp add: upto_rec1)
  have k: "utf8_ok demo_keyword"
    by (simp add: utf8_ok_def demo_keyword_def)
  have e: "get_weibo_data (world_of overlap_fetch) demo_keyword 2 = Inr ?rs"
    by (simp add: get_weibo_data_def k run_def u overlap_two_pages del: pages_loop.simps(2))
  have l: "(0::nat) < 2 \<and> 2 < length ?rs"
    by simp
  have "\<not> py_eq (r_bid (?rs ! 0)) (r_bid (?rs ! 2))"
    by (rule get_weibo_data_dedup [of "world_of overlap_fetch" demo_keyword 2, THEN conjunct1,
          rule_format, OF e, THEN conjunct1, rule_format, OF l])
  with e show ?thesis by (rule conjI)
qed

text \<open>
  C2 as stated fails where a duplicate's bid does not print: on page 2 the card with
  the surrogate bid, already accumulated, is not inserted, but line 184 raises and the
  card after it (b2) is lost with the rest of the page.
\<close>

theorem duplicate_print_raises:
  "fetch_page (world_of repeat_fetch) 2 [surrogate_post] = Transient UnicodeEncodeError [surrogate_post] \<and>
   get_weibo_data (world_of repeat_fetch) demo_keyword 2 = Inr [surrogate_post]"
proof -
  have u: "[1..2] = [1, 2::int]"
    by (simp add: upto_rec1)
  have k: "utf8_ok demo_keyword"
    by (simp add: utf8_ok_def demo_keyword_def)
  have "fetch (world_of repeat_fetch) 1 = Body (ok_body [surrogate_card])"
    by (simp add: repeat_fetch_def)
  from fetch_page_ok_body [OF this, of "[]"]
  have 1: "fetch_page (world_of repeat_fetch) 1 [] = Transient UnicodeEncodeError [surrogate_post]"
    by (simp del: cards_loop.simps(2) card_types.simps(2))
  have "fetch (world_of repeat_fetch) 2 = Body (ok_body [surrogate_card, post_card ''b2''])"
    by (simp add: repeat_fetch_def)
  from fetch_page_ok_body [OF this, of "[surrogate_post]"]
  have 2: "fetch_page (world_of repeat_fetch) 2 [surrogate_post] = Transient UnicodeEncodeError [surrogate_post]"
    by (simp add: surrogate_post_eq del: cards_loop.simps(2) card_types.simps(2))
  have "get_weibo_data (world_of repeat_fetch) demo_keyword 2 = Inr [surrogate_post]"
    by (simp add: get_weibo_data_def k run_def u page_iter_def 1 2)
  with 2 show ?thesis by blast
qed

subsection \<open>The counter of pages without new posts\<close>

lemma cards_loop_all_seen:
  assumes "\<forall>j<length items. show_card (items ! j) = Inr () \<and>
             (\<forall>r. parse_weibo (envs (i + j)) (items ! j) = Some r \<longrightarrow>
                  list_ex (\<lambda>q. py_eq (r_bid q) (r_bid r)) posts \<and> py_print (r_bid r) = Inr ())"
  shows "cards_loop envs i items (posts, k) = Inr (posts, k)"
  using assms
proof (induction items arbitrary: i)
  case Nil
  then show ?case by simp
next
  case (Cons c cs)
  have rest: "\<forall>j<length cs. show_card (cs ! j) = Inr () \<and>
             (\<forall>r. parse_weibo (envs (Suc i + j)) (cs ! j) = Some r \<longrightarrow>
                  list_ex (\<lambda>q. py_eq (r_bid q) (r_bid r)) posts \<and> py_print (r_bid r) = Inr ())"
  proof (intro allI impI)
    fix j assume "j < length cs"
    with Cons.prems [rule_format, of "Suc j"]
    show "show_card (cs ! j) = Inr () \<and>
             (\<forall>r. parse_weibo (envs (Suc i + j)) (cs ! j) = Some r \<longrightarrow>
                  list_ex (\<lambda>q. py_eq (r_bid q) (r_bid r)) posts \<and> py_print (r_bid r) = Inr ())"
      by simp
  qed
  from Cons.prems [rule_format, of 0] have
    head: "show_card c = Inr ()"
      "\<forall>r. parse_weibo (envs i) c = Some r \<longrightarrow>
          list_ex (\<lambda>q. py_eq (r_bid q) (r_bid r)) posts \<and> py_print (r_bid r) = Inr ()"
    by simp_all
  show ?case
  proof (cases "parse_weibo (envs i) c")
    case None
    with head Cons.IH [OF rest] show ?thesis by simp
  next
    case (Some r)
    with head have "list_ex (\<lambda>q. py_eq (r_bid q) (r_bid r)) posts" "py_print (r_bid r) = Inr ()"
      by blast+
    with Some head(1) Cons.IH [OF rest] show ?thesis by simp
  qed
qed

lemma page_iter_zero_new:
  assumes "fetch_page w p (all_data st) = Fetched posts' 0"
  shows "posts' = all_data st \<and>
         page_iter w p st =
           (if consecutive_empty st + 1 \<ge> 3 then Stop else Next,
            st\<lparr>requested := requested st @ [p], all_data := posts',
               consecutive_empty := consecutive_empty st + 1\<rparr>)"
  using assms fetch_page_Fetched [OF assms]
  by (simp add: page_iter_def Let_def)

lemma page_iter_some_new:
  assumes "fetch_page w p (all_data st) = Fetched posts' (Suc k)"
  shows "page_iter w p st =
           (Next, st\<lparr>requested := requested st @ [p], all_data := posts', consecutive_empty := 0\<rparr>)"
  using assms by (simp add: page_iter_def Let_def)

lemma page_iter_transient:
  assumes "fetch_page w p (all_data st) = Transient e posts'"
  shows "page_iter w p st = (Next, st\<lparr>requested := requested st @ [p], all_data := posts'\<rparr>)"
  using assms by (simp add: page_iter_def Let_def)

lemma pages_loop_Stop:
  assumes "page_iter w p st = (Stop, st')"
  shows "pages_loop w (p # ps) st = st' \<and> requested st' = requested st @ [p]"
  using assms page_iter_data [of w p st] by simp

lemma pages_loop_Next:
  assumes "page_iter w p st = (Next, st')"
  shows "pages_loop w (p # ps) st = pages_loop w ps st'"
  using assms by simp

lemma three_empty_pages:
  assumes "consecutive_empty st = 0"
    and "fetch_page w p1 (all_data st) = Fetched (all_data st) 0"
    and "fetch_page w p2 (all_data st) = Fetched (all_data st) 0"
    and "fetch_page w p3 (all_data st) = Fetched (all_data st) 0"
  shows "pages_loop w (p1 # p2 # p3 # ps) st =
           st\<lparr>requested := requested st @ [p1, p2, p3], consecutive_empty := 3\<rparr>"
proof -
  let ?s1 = "st\<lparr>requested := requested st @ [p1], all_data := all_data st, consecutive_empty := 1\<rparr>"
  let ?s2 = "st\<lparr>requested := requested st @ [p1, p2], all_data := all_data st, consecutive_empty := 2\<rparr>"
  let ?s3 = "st\<lparr>requested := requested st @ [p1, p2, p3], all_data := all_data st, consecutive_empty := 3\<rparr>"
  have 1: "page_iter w p1 st = (Next, ?s1)"
    using assms(1) page_iter_zero_new [OF assms(2)] by simp
  have "fetch_page w p2 (all_data ?s1) = Fetched (all_data st) 0"
    using assms(3) by simp
  from page_iter_zero_new [OF this] have 2: "page_iter w p2 ?s1 = (Next, ?s2)"
    by simp
  have "fetch_page w p3 (all_data ?s2) = Fetched (all_data st) 0"
    using assms(4) by simp
  from page_iter_zero_new [OF this] have 3: "page_iter w p3 ?s2 = (Stop, ?s3)"
    by simp
  have "pages_loop w (p1 # p2 # p3 # ps) st = ?s3"
    by (simp only: pages_loop_Next [OF 1] pages_loop_Next [OF 2] pages_loop_Stop [OF 3])
  then show ?thesis by simp
qed

lemma pages_loop_counter:
  "consecutive_empty st \<le> 2 \<Longrightarrow> consecutive_empty (pages_loop w ps st) \<le> 3"
proof (induction ps arbitrary: st)
  case Nil
  then show ?case by simp
next
  case (Cons p ps)
  obtain c st' where it: "page_iter w p st = (c, st')" by (cases "page_iter w p st")
  from page_iter_cases [of w p st] it Cons.prems have
    b: "consecutive_empty st' \<le> 3" "c = Next \<longrightarrow> consecutive_empty st' \<le> 2"
    by (auto split: if_splits)
  show ?case
  proof (cases c)
    case Next
    with it b Cons.IH [of st'] show ?thesis by simp
  next
    case Stop
    with it b show ?thesis by simp
  qed
qed

text \<open>
  C1, as the code has it. A page processed to its last card that adds no record
  raises \<^verbatim>\<open>consecutive_empty\<close> by one and leaves \<^verbatim>\<open>all_data\<close> as it was; a page
  processed to its last card that adds at least one record sets the counter to 0 and
  the loop goes on; a page whose processing raises leaves the counter as it was and
  the loop goes on. When the counter reaches 3 the iteration ends in \<^verbatim>\<open>break\<close>: the
  loop returns the state of that iteration and requests no further page, whatever
  pages remain, and the counter never exceeds 3. From a counter of 0, three pages in
  a row processed to their last card without a new record end the loop after exactly
  these three requests; a page is such a page when each of its cards gets past line
  175 and every record parsed has the bid of an accumulated record, and that bid
  prints.
\<close>

theorem consecutive_empty_stop:
  "(\<forall>posts'. fetch_page w p (all_data st) = Fetched posts' 0 \<longrightarrow>
       posts' = all_data st \<and>
       page_iter w p st =
         (if consecutive_empty st + 1 \<ge> 3 then Stop else Next,
          st\<lparr>requested := requested st @ [p], all_data := posts',
             consecutive_empty := consecutive_empty st + 1\<rparr>)) \<and>
   (\<forall>posts' k. fetch_page w p (all_data st) = Fetched posts' (Suc k) \<longrightarrow>
       page_iter w p st =
         (Next, st\<lparr>requested := requested st @ [p], all_data := posts', consecutive_empty := 0\<rparr>)) \<and>
   (\<forall>e posts'. fetch_page w p (all_data st) = Transient e posts' \<longrightarrow>
       page_iter w p st = (Next, st\<lparr>requested := requested st @ [p], all_data := posts'\<rparr>)) \<and>
   (\<forall>st'. page_iter w p st = (Stop, st') \<longrightarrow>
       pages_loop w (p # ps) st = st' \<and> requested st' = requested st @ [p]) \<and>
   consecutive_empty (run w n) \<le> 3 \<and>
   (\<forall>p1 p2 p3.
       consecutive_empty st = 0 \<and>
       fetch_page w p1 (all_data st) = Fetched (all_data st) 0 \<and>
       fetch_page w p2 (all_data st) = Fetched (all_data st) 0 \<and>
       fetch_page w p3 (all_data st) = Fetched (all_data st) 0 \<longrightarrow>
       pages_loop w (p1 # p2 # p3 # ps) st =
         st\<lparr>requested := requested st @ [p1, p2, p3], consecutive_empty := 3\<rparr>) \<and>
   (\<forall>envs items (posts::post list).
       (\<forall>j<length items. show_card (items ! j) = Inr () \<and>
           (\<forall>r. parse_weibo (envs j) (items ! j) = Some r \<longrightarrow>
                list_ex (\<lambda>q. py_eq (r_bid q) (r_bid r)) posts \<and> py_print (r_bid r) = Inr ())) \<longrightarrow>
       cards_loop envs 0 items (posts, 0) = Inr (posts, 0))"
proof (intro conjI allI impI)
  fix posts' assume h: "fetch_page w p (all_data st) = Fetched posts' 0"
  from page_iter_zero_new [OF h] show "posts' = all_data st" and
    "page_iter w p st =
         (if consecutive_empty st + 1 \<ge> 3 then Stop else Next,
          st\<lparr>requested := requested st @ [p], all_data := posts',
             consecutive_empty := consecutive_empty st + 1\<rparr>)"
    by blast+
next
  fix posts' k assume "fetch_page w p (all_data st) = Fetched posts' (Suc k)"
  then show "page_iter w p st =
         (Next, st\<lparr>requested := requested st @ [p], all_data := posts', consecutive_empty := 0\<rparr>)"
    by (rule page_iter_some_new)
next
  fix e posts' assume "fetch_page w p (all_data st) = Transient e posts'"
  then show "page_iter w p st = (Next, st\<lparr>requested := requested st @ [p], all_data := posts'\<rparr>)"
    by (rule page_iter_transient)
next
  fix st' assume h: "page_iter w p st = (Stop, st')"
  from pages_loop_Stop [OF h] show "pages_loop w (p # ps) st = st'" and "requested st' = requested st @ [p]"
    by blast+
next
  show "consecutive_empty (run w n) \<le> 3"
    unfolding run_def by (rule pages_loop_counter) simp
next
  fix p1 p2 p3
  assume "consecutive_empty st = 0 \<and>
       fetch_page w p1 (all_data st) = Fetched (all_data st) 0 \<and>
       fetch_page w p2 (all_data st) = Fetched (all_data st) 0 \<and>
       fetch_page w p3 (all_data st) = Fetched (all_data st) 0"
  then show "pages_loop w (p1 # p2 # p3 # ps) st =
         st\<lparr>requested := requested st @ [p1, p2, p3], consecutive_empty := 3\<rparr>"
    by (simp only: three_empty_pages)
next
  fix envs :: "nat \<Rightarrow> parse_env" and items and posts :: "post list"
  assume "\<forall>j<length items. show_card (items ! j) = Inr () \<and>
           (\<forall>r. parse_weibo (envs j) (items ! j) = Some r \<longrightarrow>
                list_ex (\<lambda>q. py_eq (r_bid q) (r_bid r)) posts \<and> py_print (r_bid r) = Inr ())"
  then show "cards_loop envs 0 items (posts, 0) = Inr (posts, 0)"
    using cards_loop_all_seen [of items envs 0 posts 0] by simp
qed

text \<open>
  C1 on a run of up to 50 pages: pages 1 and 2 add records, pages 3, 4 and 5 only
  show a bid already seen, and page 6 is never requested.
\<close>

theorem consecutive_empty_stop_witness:
  "run (world_of overlap_fetch) 50 =
     \<lparr>all_data = [demo_post ''b1'', demo_post ''b2'', demo_post ''b3''],
       consecutive_empty = 3, requested = [1, 2, 3, 4, 5]\<rparr>"
proof -
  let ?w = "world_of overlap_fetch"
  let ?st = "\<lparr>all_data = [demo_post ''b1'', demo_post ''b2'', demo_post ''b3''],
              consecutive_empty = 0, requested = [1, 2]\<rparr>"
  have u: "[1..50] = 1 # 2 # 3 # 4 # 5 # [6..50::int]"
    by (simp add: upto_rec1)
  have pre: "consecutive_empty ?st = 0 \<and>
       fetch_page ?w 3 (all_data ?st) = Fetched (all_data ?st) 0 \<and>
       fetch_page ?w 4 (all_data ?st) = Fetched (all_data ?st) 0 \<and>
       fetch_page ?w 5 (all_data ?st) = Fetched (all_data ?st) 0"
    by (simp add: overlap_page_later)
  have "pages_loop ?w (3 # 4 # 5 # [6..50]) ?st =
         ?st\<lparr>requested := requested ?st @ [3, 4, 5], consecutive_empty := 3\<rparr>"
    by (rule consecutive_empty_stop [of ?w 3 ?st "[6..50]" 50, THEN conjunct2, THEN conjunct2,
          THEN conjunct2, THEN conjunct2, THEN conjunct2, THEN conjunct1, rule_format, OF pre])
  then show ?thesis
    by (simp add: run_def u overlap_two_pages del: pages_loop.simps(2))
qed

lemma surrogate_pages:
  "fetch_page (world_of surrogate_fetch) 1 [] = Fetched [demo_post ''b1''] 1"
  "fetch_page (world_of surrogate_fetch) 2 [demo_post ''b1''] = Fetched [demo_post ''b1''] 0"
  "fetch_page (world_of surrogate_fetch) 3 [demo_post ''b1''] = Fetched [demo_post ''b1''] 0"
  "fetch_page (world_of surrogate_fetch) 4 [demo_post ''b1'']
     = Transient UnicodeEncodeError [demo_post ''b1'', surrogate_post]"
  "fetch_page (world_of surrogate_fetch) 5 [demo_post ''b1'', surrogate_post]
     = Fetched [demo_post ''b1'', surrogate_post] 0"
proof -
  have b: "fetch (world_of surrogate_fetch) p = Body (ok_body [post_card ''b1''])" if "p \<noteq> 4" for p
    using that by (simp add: surrogate_fetch_def)
  have s: "fetch (world_of surrogate_fetch) 4 = Body (ok_body [surrogate_card])"
    by (simp add: surrogate_fetch_def)
  show "fetch_page (world_of surrogate_fetch) 1 [] = Fetched [demo_post ''b1''] 1"
    using fetch_page_ok_body [OF b [of 1], of "[]"]
    by (simp add: demo_post_eq del: cards_loop.simps(2) card_types.simps(2))
  show "fetch_page (world_of surrogate_fetch) 2 [demo_post ''b1''] = Fetched [demo_post ''b1''] 0"
    using fetch_page_ok_body [OF b [of 2], of "[demo_post ''b1'']"]
    by (simp add: demo_post_eq del: cards_loop.simps(2) card_types.simps(2))
  show "fetch_page (world_of surrogate_fetch) 3 [demo_post ''b1''] = Fetched [demo_post ''b1''] 0"
    using fetch_page_ok_body [OF b [of 3], of "[demo_post ''b1'']"]
    by (simp add: demo_post_eq del: cards_loop.simps(2) card_types.simps(2))
  show "fetch_page (world_of surrogate_fetch) 4 [demo_post ''b1'']
     = Transient UnicodeEncodeError [demo_post ''b1'', surrogate_post]"
    using fetch_page_ok_body [OF s, of "[demo_post ''b1'']"]
    by (simp add: surrogate_post_eq del: cards_loop.simps(2) card_types.simps(2))
  show "fetch_page (world_of surrogate_fetch) 5 [demo_post ''b1'', surrogate_post]
     = Fetched [demo_post ''b1'', surrogate_post] 0"
    using fetch_page_ok_body [OF b [of 5], of "[demo_post ''b1'', surrogate_post]"]
    by (simp add: demo_post_eq surrogate_post_eq del: cards_loop.simps(2) card_types.simps(2))
qed

text \<open>
  C1 as stated fails where a page raises after an insertion: with the counter at 2,
  page 4 adds the record with the surrogate bid, line 182 raises, and the counter is
  still 2; page 5 adds nothing and the loop stops there, though 7 pages were asked for.
\<close>

theorem insertion_without_reset:
  "page_iter (world_of surrogate_fetch) 4
     \<lparr>all_data = [demo_post ''b1''], consecutive_empty = 2, requested = [1, 2, 3]\<rparr>
     = (Next, \<lparr>all_data = [demo_post ''b1'', surrogate_post], consecutive_empty = 2,
               requested = [1, 2, 3, 4]\<rparr>) \<and>
   run (world_of surrogate_fetch) 7 =
     \<lparr>all_data = [demo_post ''b1'', surrogate_post], consecutive_empty = 3,
       requested = [1, 2, 3, 4, 5]\<rparr>"
proof -
  have u: "[1..7] = [1, 2, 3, 4, 5, 6, 7::int]"
    by (simp add: upto_rec1)
  have 4: "page_iter (world_of surrogate_fetch) 4
     \<lparr>all_data = [demo_post ''b1''], consecutive_empty = 2, requested = [1, 2, 3]\<rparr>
     = (Next, \<lparr>all_data = [demo_post ''b1'', surrogate_post], consecutive_empty = 2,
               requested = [1, 2, 3, 4]\<rparr>)"
    by (simp add: page_iter_def surrogate_pages)
  have "run (world_of surrogate_fetch) 7 =
     \<lparr>all_data = [demo_post ''b1'', surrogate_post], consecutive_empty = 3,
       requested = [1, 2, 3, 4, 5]\<rparr>"
    by (simp add: run_def u page_iter_def surrogate_pages)
  with 4 show ?thesis by (rule conjI)
qed

subsection \<open>Pages the provider refuses, pages that raise\<close>

lemma page_iter_failure:
  assumes "fetch_page w p (all_data st) = ProviderFailure"
  shows "page_iter w p st = (Stop, st\<lparr>requested := requested st @ [p]\<rparr>)"
  using assms by (simp add: page_iter_def Let_def)

lemma fetch_page_failure:
  assumes "fetch w p = Body (JDict kvs)"
    and "\<not> (py_eq (dget kvs (ascii ''ok'') JNull) (JInt 1) \<and> map_of kvs (ascii ''data'') \<noteq> None)"
  shows "fetch_page w p posts = ProviderFailure"
  using assms by (auto simp: fetch_page_def)

text \<open>
  C3. When the body of a page is a JSON object whose \<^verbatim>\<open>ok\<close> is not equal to 1, or
  that has no \<^verbatim>\<open>data\<close>, the loop ends at that page: the pages after it are not
  requested, and the state returned is the one before the page with the page added
  to the requests, so the records of the pages before are all there.
\<close>

theorem provider_failure_stops:
  assumes "fetch w p = Body (JDict kvs)"
    and "\<not> (py_eq (dget kvs (ascii ''ok'') JNull) (JInt 1) \<and> map_of kvs (ascii ''data'') \<noteq> None)"
  shows "pages_loop w (p # ps) st = st\<lparr>requested := requested st @ [p]\<rparr> \<and>
         all_data (pages_loop w (p # ps) st) = all_data st"
proof -
  from fetch_page_failure [OF assms] have "fetch_page w p (all_data st) = ProviderFailure" .
  from page_iter_failure [OF this] show ?thesis by simp
qed

lemma refused_page_1:
  "fetch_page (world_of refused_fetch) 1 [] = Fetched [demo_post ''b1''] 1"
proof -
  have "fetch (world_of refused_fetch) 1 = Body (ok_body [post_card ''b1''])"
    by (simp add: refused_fetch_def)
  from fetch_page_ok_body [OF this, of "[]"] show ?thesis
    by (simp add: demo_post_eq del: cards_loop.simps(2) card_types.simps(2))
qed

text \<open>
  C3 on a run of up to 50 pages whose page 2 answers with \<^verbatim>\<open>ok\<close> 0: the record of
  page 1 is returned and page 3 is never requested.
\<close>

theorem provider_failure_stops_witness:
  "run (world_of refused_fetch) 50 =
     \<lparr>all_data = [demo_post ''b1''], consecutive_empty = 0, requested = [1, 2]\<rparr>"
proof -
  let ?w = "world_of refused_fetch"
  let ?st = "\<lparr>all_data = [demo_post ''b1''], consecutive_empty = 0, requested = [1]\<rparr>"
  let ?kvs = "[(ascii ''ok'', JInt 0), (ascii ''msg'', JStr (ascii ''busy''))]"
  have u: "[1..50] = 1 # 2 # [3..50::int]"
    by (simp add: upto_rec1)
  have f: "fetch ?w 2 = Body (JDict ?kvs)"
    by (simp add: refused_fetch_def)
  have n: "\<not> (py_eq (dget ?kvs (ascii ''ok'') JNull) (JInt 1) \<and> map_of ?kvs (ascii ''data'') \<noteq> None)"
    by (simp add: dget_def)
  from provider_failure_stops [OF f n, of "[3..50]" ?st]
  have "pages_loop ?w (2 # [3..50]) ?st = ?st\<lparr>requested := requested ?st @ [2]\<rparr>"
    by (rule conjunct1)
  moreover have "page_iter ?w 1 \<lparr>all_data = [], consecutive_empty = 0, requested = []\<rparr> = (Next, ?st)"
    by (simp add: page_iter_def refused_page_1)
  ultimately show ?thesis
    by (simp add: run_def u del: pages_loop.simps(2)) (simp add: pages_loop_Next)
qed

lemma card_types_non_dict:
  assumes "\<exists>c\<in>set items. \<not> is_dict c"
  shows "card_types items = Inl AttributeError"
  using assms
proof (induction items)
  case Nil
  then show ?case by simp
next
  case (Cons c cs)
  show ?case
  proof (cases c)
    case (JDict kv)
    with Cons have "card_types cs = Inl AttributeError" by simp
    with JDict show ?thesis by simp
  qed simp_all
qed

lemma pages_loop_all_transient:
  assumes "\<forall>q\<in>set ps. \<exists>e. fetch_page w q (all_data st) = Transient e (all_data st)"
  shows "pages_loop w ps st = st\<lparr>requested := requested st @ ps\<rparr>"
  using assms
proof (induction ps arbitrary: st)
  case Nil
  then show ?case by simp
next
  case (Cons p ps)
  from Cons.prems obtain e where "fetch_page w p (all_data st) = Transient e (all_data st)" by auto
  from page_iter_transient [OF this]
  have it: "page_iter w p st = (Next, st\<lparr>requested := requested st @ [p]\<rparr>)" by simp
  from Cons.prems have "\<forall>q\<in>set ps. \<exists>e. fetch_page w q (all_data (st\<lparr>requested := requested st @ [p]\<rparr>))
      = Transient e (all_data (st\<lparr>requested := requested st @ [p]\<rparr>))"
    by simp
  from Cons.IH [OF this] it show ?case by simp
qed

text \<open>
  C4, as the code has it. A page whose processing raises (the request or the JSON
  decoding fails, the body is not an object, \<^verbatim>\<open>data\<close> is not an object, a card is
  not an object, a print fails) ends in \<^verbatim>\<open>continue\<close>: the loop goes on with the next
  page number and the counter as it was. \<^verbatim>\<open>get_weibo_data\<close> raises exactly when the
  keyword does not encode as UTF-8, at line 147 and before any request; for every
  other keyword it returns a table, and when every page raises before its first
  card that table is empty, every page from 1 to \<^verbatim>\<open>page_num\<close> having been requested.
\<close>

theorem transient_errors_skip:
  "(\<forall>e posts'. fetch_page w p (all_data st) = Transient e posts' \<longrightarrow>
       page_iter w p st = (Next, st\<lparr>requested := requested st @ [p], all_data := posts'\<rparr>) \<and>
       consecutive_empty (snd (page_iter w p st)) = consecutive_empty st \<and>
       pages_loop w (p # ps) st =
         pages_loop w ps (st\<lparr>requested := requested st @ [p], all_data := posts'\<rparr>)) \<and>
   (fetch w p = Raised \<longrightarrow> fetch_page w p posts = Transient RequestError posts) \<and>
   (\<forall>j. fetch w p = Body j \<and> \<not> is_dict j \<longrightarrow> fetch_page w p posts = Transient AttributeError posts) \<and>
   (\<forall>kvs d. fetch w p = Body (JDict kvs) \<and> py_eq (dget kvs (ascii ''ok'') JNull) (JInt 1) \<and>
       map_of kvs (ascii ''data'') = Some d \<and> \<not> is_dict d \<longrightarrow>
       fetch_page w p posts = Transient AttributeError posts) \<and>
   (\<forall>kvs dkv items. fetch w p = Body (JDict kvs) \<and> py_eq (dget kvs (ascii ''ok'') JNull) (JInt 1) \<and>
       map_of kvs (ascii ''data'') = Some (JDict dkv) \<and>
       dget dkv (ascii ''cards'') (JList []) = JList items \<and> (\<exists>c\<in>set items. \<not> is_dict c) \<longrightarrow>
       fetch_page w p posts = Transient AttributeError posts) \<and>
   (utf8_ok keyword \<longrightarrow> get_weibo_data w keyword n = Inr (all_data (run w n))) \<and>
   (\<not> utf8_ok keyword \<longrightarrow> get_weibo_data w keyword n = Inl UnicodeEncodeError) \<and>
   ((\<forall>q\<in>set [1..n]. \<exists>e. fetch_page w q [] = Transient e []) \<and> utf8_ok keyword \<longrightarrow>
       get_weibo_data w keyword n = Inr [] \<and> requested (run w n) = [1..n] \<and>
       consecutive_empty (run w n) = 0)"
proof (intro conjI allI impI)
  fix e posts' assume h: "fetch_page w p (all_data st) = Transient e posts'"
  from page_iter_transient [OF h]
  show it: "page_iter w p st = (Next, st\<lparr>requested := requested st @ [p], all_data := posts'\<rparr>)" .
  then show "consecutive_empty (snd (page_iter w p st)) = consecutive_empty st"
    by simp
  from it show "pages_loop w (p # ps) st =
         pages_loop w ps (st\<lparr>requested := requested st @ [p], all_data := posts'\<rparr>)"
    by simp
next
  assume "fetch w p = Raised"
  then show "fetch_page w p posts = Transient RequestError posts"
    by (simp add: fetch_page_def)
next
  fix j assume "fetch w p = Body j \<and> \<not> is_dict j"
  then show "fetch_page w p posts = Transient AttributeError posts"
    by (cases j) (simp_all add: fetch_page_def)
next
  fix kvs d
  assume "fetch w p = Body (JDict kvs) \<and> py_eq (dget kvs (ascii ''ok'') JNull) (JInt 1) \<and>
       map_of kvs (ascii ''data'') = Some d \<and> \<not> is_dict d"
  then show "fetch_page w p posts = Transient AttributeError posts"
    by (cases d) (simp_all add: fetch_page_def page_cards_def)
next
  fix kvs dkv items
  assume h: "fetch w p = Body (JDict kvs) \<and> py_eq (dget kvs (ascii ''ok'') JNull) (JInt 1) \<and>
       map_of kvs (ascii ''data'') = Some (JDict dkv) \<and>
       dget dkv (ascii ''cards'') (JList []) = JList items \<and> (\<exists>c\<in>set items. \<not> is_dict c)"
  then have "card_types items = Inl AttributeError"
    by (simp only: card_types_non_dict)
  with h show "fetch_page w p posts = Transient AttributeError posts"
    by (simp add: fetch_page_def page_cards_def py_get_dict del: py_get.simps)
next
  assume "utf8_ok keyword"
  then show "get_weibo_data w keyword n = Inr (all_data (run w n))"
    by (simp add: get_weibo_data_def)
next
  assume "\<not> utf8_ok keyword"
  then show "get_weibo_data w keyword n = Inl UnicodeEncodeError"
    by (simp add: get_weibo_data_def)
next
  assume h: "(\<forall>q\<in>set [1..n]. \<exists>e. fetch_page w q [] = Transient e []) \<and> utf8_ok keyword"
  then have "run w n = \<lparr>all_data = [], consecutive_empty = 0, requested = []\<rparr>
       \<lparr>requested := requested \<lparr>all_data = [], consecutive_empty = 0, requested = []\<rparr> @ [1..n]\<rparr>"
    unfolding run_def by (intro pages_loop_all_transient) simp
  with h show "get_weibo_data w keyword n = Inr []" and "requested (run w n) = [1..n]"
    and "consecutive_empty (run w n) = 0"
    by (simp_all add: get_weibo_data_def)
qed

lemma flaky_page_3:
  "fetch_page (world_of flaky_fetch) 3 [] = Fetched [demo_post ''b1''] 1"
proof -
  have "fetch (world_of flaky_fetch) 3 = Body (ok_body [post_card ''b1''])"
    by (simp add: flaky_fetch_def)
  from fetch_page_ok_body [OF this, of "[]"] show ?thesis
    by (simp add: demo_post_eq del: cards_loop.simps(2) card_types.simps(2))
qed

text \<open>
  C4 on a world where no page answers, and on one where page 1 fails on the network
  and page 2 is a JSON list: page 3 is processed with the counter still 0.
\<close>

theorem transient_errors_skip_witness:
  "get_weibo_data (world_of dead_fetch) demo_keyword 5 = Inr [] \<and>
   requested (run (world_of dead_fetch) 5) = [1, 2, 3, 4, 5] \<and>
   run (world_of flaky_fetch) 3 =
     \<lparr>all_data = [demo_post ''b1''], consecutive_empty = 0, requested = [1, 2, 3]\<rparr>"
proof -
  let ?d = "world_of dead_fetch"
  let ?f = "world_of flaky_fetch"
  let ?s0 = "\<lparr>all_data = [], consecutive_empty = 0, requested = []\<rparr>"
  let ?s1 = "\<lparr>all_data = [], consecutive_empty = 0, requested = [1]\<rparr>"
  let ?s2 = "\<lparr>all_data = [], consecutive_empty = 0, requested = [1, 2]\<rparr>"
  have u5: "[1..5] = [1, 2, 3, 4, 5::int]" and u3: "[1..3] = [1, 2, 3::int]"
    by (simp_all add: upto_rec1)
  have k: "utf8_ok demo_keyword"
    by (simp add: utf8_ok_def demo_keyword_def)
  have "\<forall>q\<in>set [1..5]. \<exists>e. fetch_page ?d q [] = Transient e []"
    by (simp add: fetch_page_def dead_fetch_def)
  with k have pre: "(\<forall>q\<in>set [1..5]. \<exists>e. fetch_page ?d q [] = Transient e []) \<and> utf8_ok demo_keyword"
    by (rule conjI [rotated])
  have dead: "get_weibo_data ?d demo_keyword 5 = Inr [] \<and> requested (run ?d 5) = [1..5] \<and>
       consecutive_empty (run ?d 5) = 0"
    by (rule transient_errors_skip [of ?d 1 ?s0 "[]" "[]" demo_keyword 5, THEN conjunct2,
          THEN conjunct2, THEN conjunct2, THEN conjunct2, THEN conjunct2, THEN conjunct2,
          THEN conjunct2, rule_format, OF pre])
  have t1: "fetch_page ?f 1 (all_data ?s0) = Transient RequestError []"
    by (simp add: fetch_page_def flaky_fetch_def)
  have 1: "pages_loop ?f (1 # [2, 3]) ?s0 =
      pages_loop ?f [2, 3] (?s0\<lparr>requested := requested ?s0 @ [1], all_data := []\<rparr>)"
    by (rule transient_errors_skip [of ?f 1 ?s0 "[2, 3]" "[]" demo_keyword 3, THEN conjunct1,
          rule_format, OF t1, THEN conjunct2, THEN conjunct2])
  have t2: "fetch_page ?f 2 (all_data ?s1) = Transient AttributeError []"
    by (simp add: fetch_page_def flaky_fetch_def)
  have 2: "pages_loop ?f (2 # [3]) ?s1 =
      pages_loop ?f [3] (?s1\<lparr>requested := requested ?s1 @ [2], all_data := []\<rparr>)"
    by (rule transient_errors_skip [of ?f 2 ?s1 "[3]" "[]" demo_keyword 3, THEN conjunct1,
          rule_format, OF t2, THEN conjunct2, THEN conjunct2])
  have 3: "pages_loop ?f [3] ?s2 = \<lparr>all_data = [demo_post ''b1''], consecutive_empty = 0, requested = [1, 2, 3]\<rparr>"
    by (simp add: page_iter_def flaky_page_3)
  from 1 2 3 have "run ?f 3 = \<lparr>all_data = [demo_post ''b1''], consecutive_empty = 0, requested = [1, 2, 3]\<rparr>"
    by (simp add: run_def u3 del: pages_loop.simps(2))
  with dead show ?thesis
    by (simp add: u5)
qed

text \<open>
  C4 as stated fails at line 147: a keyword that is a lone surrogate makes
  \<^verbatim>\<open>urllib.parse.quote\<close> raise outside every \<^verbatim>\<open>try\<close>, and the exception leaves
  \<^verbatim>\<open>get_weibo_data\<close>.
\<close>

theorem keyword_quote_raises:
  "get_weibo_data (world_of dead_fetch) [0xD800] 5 = Inl UnicodeEncodeError"
  by (simp add: get_weibo_data_def utf8_ok_def)

end
